theory Spec2Isabelle
  imports Main
begin

unbundle bit_operations_syntax

section \<open>Python values used by mobibook.py\<close>

text \<open>
  A Python 2 \<open>str\<close> is a byte string: it is modelled as \<open>string\<close>, one \<open>char\<close> per byte.
  A \<open>unicode\<close> object is modelled as the list of its code points. Python integers are
  unbounded; every integer the program reads is unsigned, so they are \<open>nat\<close>, except the two
  attributes the constructor initialises with \<open>-1\<close>, which are \<open>int\<close>.
  Every exception the program can raise is a constructor of \<open>error\<close>, and a computation
  that may raise returns \<open>error + 'a\<close>.
\<close>

type_synonym bytes = string
type_synonym ustring = "nat list"

datatype error =
    MobiException
  | StructError
  | IndexError
  | AttributeError
  | UnicodeDecodeError
  | LookupError

definition bindE :: "error + 'a \<Rightarrow> ('a \<Rightarrow> error + 'b) \<Rightarrow> error + 'b" where
  "bindE m f = (case m of Inl e \<Rightarrow> Inl e | Inr x \<Rightarrow> f x)"

text \<open>\<open>s[a:b]\<close> for non-negative \<open>a\<close> and \<open>b\<close>: both ends are clamped to the length.\<close>

definition slice :: "'a list \<Rightarrow> nat \<Rightarrow> nat \<Rightarrow> 'a list" where
  "slice s a b = drop a (take b s)"

text \<open>\<open>xs[i]\<close> for a non-negative index: out of range raises IndexError.\<close>

definition list_get :: "'a list \<Rightarrow> nat \<Rightarrow> error + 'a" where
  "list_get xs i = (if i < length xs then Inr (xs ! i) else Inl IndexError)"

subsection \<open>struct.unpack, big-endian formats\<close>

definition byte_val :: "char \<Rightarrow> nat" where
  "byte_val c = of_char c"

definition be_uint :: "bytes \<Rightarrow> nat" where
  "be_uint s = foldl (\<lambda>acc c. acc * 256 + byte_val c) 0 s"

text \<open>\<open>struct.unpack(fmt, s)\<close> raises struct.error unless \<open>len(s)\<close> is the size of the format.\<close>

definition unpack_H :: "bytes \<Rightarrow> error + nat" where
  "unpack_H s = (if length s = 2 then Inr (be_uint s) else Inl StructError)"

definition unpack_L :: "bytes \<Rightarrow> error + nat" where
  "unpack_L s = (if length s = 4 then Inr (be_uint s) else Inl StructError)"

definition unpack_I :: "bytes \<Rightarrow> error + nat" where
  "unpack_I s = (if length s = 4 then Inr (be_uint s) else Inl StructError)"

definition unpack_Q :: "bytes \<Rightarrow> error + nat" where
  "unpack_Q s = (if length s = 8 then Inr (be_uint s) else Inl StructError)"

definition unpack_II :: "bytes \<Rightarrow> error + (nat \<times> nat)" where
  "unpack_II s =
     (if length s = 8 then Inr (be_uint (take 4 s), be_uint (drop 4 s)) else Inl StructError)"

definition unpack_LLLL :: "bytes \<Rightarrow> error + (nat \<times> nat \<times> nat \<times> nat)" where
  "unpack_LLLL s =
     (if length s = 16
      then Inr (be_uint (slice s 0 4), be_uint (slice s 4 8),
                be_uint (slice s 8 12), be_uint (slice s 12 16))
      else Inl StructError)"

definition unpack_LBBBB :: "bytes \<Rightarrow> error + (nat \<times> nat \<times> nat \<times> nat \<times> nat)" where
  "unpack_LBBBB s =
     (if length s = 8
      then Inr (be_uint (take 4 s), byte_val (s ! 4), byte_val (s ! 5),
                byte_val (s ! 6), byte_val (s ! 7))
      else Inl StructError)"

text \<open>\<open>struct.unpack_from('>L', s, off)\<close> needs four bytes from \<open>off\<close> on.\<close>

definition unpack_from_L :: "bytes \<Rightarrow> nat \<Rightarrow> error + nat" where
  "unpack_from_L s off =
     (if length s < off + 4 then Inl StructError else Inr (be_uint (slice s off (off + 4))))"

subsection \<open>str(n), str.lower, str.strip, unicode.strip\<close>

definition digit_char :: "nat \<Rightarrow> char" where
  "digit_char d = char_of (48 + d)"

fun str_nat :: "nat \<Rightarrow> string" where
  "str_nat n = (if n < 10 then [digit_char n] else str_nat (n div 10) @ [digit_char (n mod 10)])"

declare str_nat.simps [simp del]

definition lower_char :: "char \<Rightarrow> char" where
  "lower_char c =
     (if 65 \<le> byte_val c \<and> byte_val c \<le> 90 then char_of (byte_val c + 32) else c)"

definition lower :: "string \<Rightarrow> string" where
  "lower s = map lower_char s"

text \<open>The bytes \<open>str.strip()\<close> removes: space, tab, newline, return, VT and FF.\<close>

definition isspace :: "char \<Rightarrow> bool" where
  "isspace c = (byte_val c = 32 \<or> (9 \<le> byte_val c \<and> byte_val c \<le> 13))"

definition strip :: "bytes \<Rightarrow> bytes" where
  "strip s = rev (dropWhile isspace (rev (dropWhile isspace s)))"

text \<open>The code points \<open>unicode.strip()\<close> removes (Python 2.7's whitespace table).\<close>

definition uisspace :: "nat \<Rightarrow> bool" where
  "uisspace c =
     ((9 \<le> c \<and> c \<le> 13) \<or> (28 \<le> c \<and> c \<le> 32) \<or> c = 0x85 \<or> c = 0xA0 \<or> c = 0x1680
      \<or> c = 0x180E \<or> (0x2000 \<le> c \<and> c \<le> 0x200A) \<or> c = 0x2028 \<or> c = 0x2029
      \<or> c = 0x202F \<or> c = 0x205F \<or> c = 0x3000)"

definition ustrip :: "ustring \<Rightarrow> ustring" where
  "ustrip s = rev (dropWhile uisspace (rev (dropWhile uisspace s)))"

text \<open>\<open>s.split('\0')[0]\<close>: the bytes before the first NUL.\<close>

definition before_nul :: "bytes \<Rightarrow> bytes" where
  "before_nul s = takeWhile (\<lambda>c. byte_val c \<noteq> 0) s"

subsection \<open>unicode(v, encoding)\<close>

text \<open>
  The two codecs of \<open>CODEPAGE_MAP\<close>. Windows-1252 maps 0x00-0x7F and 0xA0-0xFF to the same
  code point, 0x80-0x9F through a table with five undefined bytes. UTF-8 is Python 2.7's
  strict decoder: no overlong forms, nothing above U+10FFFF, surrogates accepted.
\<close>

definition cp1252_high :: "nat option list" where
  "cp1252_high =
     [Some 0x20AC, None, Some 0x201A, Some 0x0192, Some 0x201E, Some 0x2026, Some 0x2020,
      Some 0x2021, Some 0x02C6, Some 0x2030, Some 0x0160, Some 0x2039, Some 0x0152, None,
      Some 0x017D, None, None, Some 0x2018, Some 0x2019, Some 0x201C, Some 0x201D,
      Some 0x2022, Some 0x2013, Some 0x2014, Some 0x02DC, Some 0x2122, Some 0x0161,
      Some 0x203A, Some 0x0153, None, Some 0x017E, Some 0x0178]"

definition cp1252_char :: "nat \<Rightarrow> nat option" where
  "cp1252_char b = (if b < 0x80 \<or> 0xA0 \<le> b then Some b else cp1252_high ! (b - 0x80))"

fun cp1252_decode :: "bytes \<Rightarrow> error + ustring" where
  "cp1252_decode [] = Inr []"
| "cp1252_decode (c # cs) =
     (case cp1252_char (byte_val c) of
        None \<Rightarrow> Inl UnicodeDecodeError
      | Some u \<Rightarrow> bindE (cp1252_decode cs) (\<lambda>us. Inr (u # us)))"

definition is_cont :: "nat \<Rightarrow> bool" where
  "is_cont b = (0x80 \<le> b \<and> b < 0xC0)"

fun utf8_nat :: "nat list \<Rightarrow> error + ustring" where
  "utf8_nat [] = Inr []"
| "utf8_nat (a # bs) =
     (if a < 0x80 then bindE (utf8_nat bs) (\<lambda>us. Inr (a # us))
      else if 0xC2 \<le> a \<and> a < 0xE0 then
        (case bs of
           b # r \<Rightarrow>
             if is_cont b
             then bindE (utf8_nat r) (\<lambda>us. Inr (((a - 0xC0) * 64 + (b - 0x80)) # us))
             else Inl UnicodeDecodeError
         | _ \<Rightarrow> Inl UnicodeDecodeError)
      else if 0xE0 \<le> a \<and> a < 0xF0 then
        (case bs of
           b # c # r \<Rightarrow>
             if is_cont b \<and> is_cont c \<and> \<not> (a = 0xE0 \<and> b < 0xA0)
             then bindE (utf8_nat r)
                    (\<lambda>us. Inr (((a - 0xE0) * 4096 + (b - 0x80) * 64 + (c - 0x80)) # us))
             else Inl UnicodeDecodeError
         | _ \<Rightarrow> Inl UnicodeDecodeError)
      else if 0xF0 \<le> a \<and> a < 0xF5 then
        (case bs of
           b # c # d # r \<Rightarrow>
             if is_cont b \<and> is_cont c \<and> is_cont d
                \<and> \<not> (a = 0xF0 \<and> b < 0x90) \<and> \<not> (a = 0xF4 \<and> 0x8F < b)
             then bindE (utf8_nat r)
                    (\<lambda>us. Inr (((a - 0xF0) * 262144 + (b - 0x80) * 4096
                                 + (c - 0x80) * 64 + (d - 0x80)) # us))
             else Inl UnicodeDecodeError
         | _ \<Rightarrow> Inl UnicodeDecodeError)
      else Inl UnicodeDecodeError)"

definition utf8_decode :: "bytes \<Rightarrow> error + ustring" where
  "utf8_decode s = utf8_nat (map byte_val s)"

definition unicode :: "bytes \<Rightarrow> string \<Rightarrow> error + ustring" where
  "unicode v encoding =
     (if encoding = ''utf-8'' then utf8_decode v
      else if encoding = ''windows-1252'' then cp1252_decode v
      else Inl LookupError)"

section \<open>Module constants\<close>

definition EXTH_MAP_STRINGS :: "(nat \<times> string) list" where
  "EXTH_MAP_STRINGS =
     [(100, ''Creator''), (101, ''Publisher''), (102, ''Imprint''), (103, ''Description''),
      (104, ''ISBN''), (105, ''Subject''), (106, ''Published''), (107, ''Review''),
      (108, ''Contributor''), (109, ''Rights''), (110, ''SubjectCode''), (111, ''Type''),
      (112, ''Source''), (113, ''ASIN''), (116, ''StartOffset''), (118, ''Price''),
      (119, ''Currency''), (201, ''CoverOffset''), (406, ''IsLibraryRental''),
      (503, ''UpdatedTitle'')]"

text \<open>\<open>dict([(v.lower(), k) for k, v in ...])\<close>: a later pair overwrites an earlier one.\<close>

definition EXTH_RMAP_STRINGS :: "string \<rightharpoonup> nat" where
  "EXTH_RMAP_STRINGS = map_of (rev (map (\<lambda>(k, v). (lower v, k)) EXTH_MAP_STRINGS))"

datatype conversion = Fmt_I | Fmt_Q

definition EXTH_MAP_CONVERSIONS :: "nat \<rightharpoonup> conversion" where
  "EXTH_MAP_CONVERSIONS = map_of [(116, Fmt_I), (201, Fmt_I), (406, Fmt_Q)]"

definition unpack_conv :: "conversion \<Rightarrow> bytes \<Rightarrow> error + nat" where
  "unpack_conv f v = (case f of Fmt_I \<Rightarrow> unpack_I v | Fmt_Q \<Rightarrow> unpack_Q v)"

definition CODEPAGE_MAP :: "nat \<rightharpoonup> string" where
  "CODEPAGE_MAP = map_of [(1252, ''windows-1252''), (65001, ''utf-8'')]"

definition DEFAULT_ENCODING :: string where
  "DEFAULT_ENCODING = ''windows-1252''"

definition codepage_encoding :: "nat \<Rightarrow> string" where
  "codepage_encoding cp = (case CODEPAGE_MAP cp of Some e \<Rightarrow> e | None \<Rightarrow> DEFAULT_ENCODING)"

section \<open>class MobiBook\<close>

type_synonym section_desc = "nat \<times> nat \<times> nat"

record mobibook =
  data_file :: bytes
  header :: bytes
  magic :: bytes
  crypto_type :: int
  num_sections :: nat
  sections :: "section_desc list"
  record0 :: bytes
  compression :: nat
  txt_records :: nat
  firstimg :: nat
  extra_data_flags :: nat
  meta_array :: "nat \<rightharpoonup> bytes"
  mobi_length :: nat
  mobi_version :: int
  print_replica :: bool
  mobi_codepage :: nat
  exth_off :: nat
  drm_ptr :: nat
  drm_count :: nat
  drm_size :: nat

subsection \<open>parseSections and loadSection\<close>

fun for_sections :: "bytes \<Rightarrow> nat list \<Rightarrow> section_desc list \<Rightarrow> error + section_desc list" where
  "for_sections data [] secs = Inr secs"
| "for_sections data (i # rest) secs =
     bindE (unpack_LBBBB (slice data (78 + i * 8) (78 + i * 8 + 8)))
       (\<lambda>(offset, a1, a2, a3, a4).
          for_sections data rest
            (secs @ [(offset, a1, push_bit 16 a2 OR push_bit 8 a3 OR a4)]))"

definition parseSections :: "mobibook \<Rightarrow> error + mobibook" where
  "parseSections self =
     bindE (unpack_H (slice (header self) 76 78))
       (\<lambda>n. bindE (for_sections (data_file self) [0..<n] [])
          (\<lambda>secs. Inr (self\<lparr>num_sections := n, sections := secs\<rparr>)))"

definition loadSection :: "mobibook \<Rightarrow> nat \<Rightarrow> error + bytes" where
  "loadSection self section =
     bindE (if section + 1 = num_sections self then Inr (length (data_file self))
            else bindE (list_get (sections self) (section + 1)) (\<lambda>d. Inr (fst d)))
       (\<lambda>endoff. bindE (list_get (sections self) section)
          (\<lambda>d. Inr (slice (data_file self) (fst d) endoff)))"

subsection \<open>processEXTH and storeEXTH\<close>

text \<open>
  The body of the \<open>for i in xrange(nitems)\<close> loop, run for the remaining number of
  iterations from cursor \<open>pos\<close>. The callback acts on a state \<open>st\<close>; the loop returns the
  state reached together with either the exception that stopped it or the final cursor.
\<close>

fun exth_loop ::
  "('s \<Rightarrow> nat \<Rightarrow> nat \<Rightarrow> bytes \<Rightarrow> 's) \<Rightarrow> bytes \<Rightarrow> nat \<Rightarrow> nat \<Rightarrow> 's \<Rightarrow> 's \<times> (error + nat)" where
  "exth_loop callback exth 0 pos st = (st, Inr pos)"
| "exth_loop callback exth (Suc k) pos st =
     (case unpack_II (slice exth pos (pos + 8)) of
        Inl e \<Rightarrow> (st, Inl e)
      | Inr (exth_type, size') \<Rightarrow>
          exth_loop callback exth k (pos + size')
            (callback st exth_type pos (slice exth (pos + 8) (pos + size'))))"

text \<open>
  The result is Python's: \<open>None\<close> for the bare \<open>return\<close>, \<open>Some False\<close> when the
  \<open>except\<close> clause ran, \<open>Some True\<close> otherwise. The state the callback has built so far
  is returned in every case.
\<close>

definition processEXTH ::
  "mobibook \<Rightarrow> ('s \<Rightarrow> nat \<Rightarrow> nat \<Rightarrow> bytes \<Rightarrow> 's) \<Rightarrow> 's \<Rightarrow> 's \<times> bool option" where
  "processEXTH self callback st =
     (let exth = drop (exth_off self) (record0 self) in
      if length exth < 12 \<or> take 4 exth \<noteq> ''EXTH'' then (st, None)
      else
        (case unpack_I (slice exth 8 12) of
           Inl e \<Rightarrow> (st, Some False)
         | Inr nitems \<Rightarrow>
             (case exth_loop callback exth nitems 12 st of
                (st', Inl e) \<Rightarrow> (st', Some False)
              | (st', Inr pos) \<Rightarrow> (st', Some True))))"

definition storeEXTH :: "mobibook \<Rightarrow> nat \<Rightarrow> nat \<Rightarrow> bytes \<Rightarrow> mobibook" where
  "storeEXTH self exth_type pos content =
     self\<lparr>meta_array := (meta_array self)(exth_type \<mapsto> content)\<rparr>"

subsection \<open>parseMobiHeader and the constructor\<close>

definition parseMobiHeader :: "mobibook \<Rightarrow> error + mobibook" where
  "parseMobiHeader self =
     bindE (unpack_L (slice (record0 self) 0x14 0x18)) (\<lambda>ml.
     bindE (unpack_L (slice (record0 self) 0x1c 0x20)) (\<lambda>cp.
     bindE (unpack_L (slice (record0 self) 0x68 0x6C)) (\<lambda>ver.
     bindE (unpack_from_L (record0 self) 0x6C) (\<lambda>fi.
     let self = self\<lparr>mobi_length := ml, mobi_codepage := cp, mobi_version := int ver,
                      exth_off := ml + 16, firstimg := fi\<rparr> in
     bindE (if 0xE4 \<le> mobi_length self \<and> 5 \<le> mobi_version self
            then bindE (unpack_H (slice (record0 self) 0xF2 0xF4))
                   (\<lambda>f. Inr (self\<lparr>extra_data_flags := f\<rparr>))
            else Inr self) (\<lambda>self.
     bindE (unpack_H (slice (record0 self) 0xC (0xC + 2))) (\<lambda>ct.
     bindE (unpack_LLLL (slice (record0 self) 0xA8 (0xA8 + 16))) (\<lambda>(dp, dc, ds, _).
     let self = self\<lparr>crypto_type := int ct, drm_ptr := dp, drm_count := dc,
                      drm_size := ds\<rparr> in
     bindE (unpack_L (slice (record0 self) 0x80 0x84)) (\<lambda>exth_flag.
       if exth_flag AND 0x40 \<noteq> 0
       then (case processEXTH self storeEXTH self of
               (self', r) \<Rightarrow>
                 if r \<noteq> Some True then Inr (self'\<lparr>meta_array := Map.empty\<rparr>)
                 else Inr self')
       else Inr self))))))))"

text \<open>
  The object before the constructor has assigned anything: each attribute holds a
  placeholder that no path of the program reads before it is assigned.
\<close>

definition blank :: mobibook where
  "blank = \<lparr>data_file = [], header = [], magic = [], crypto_type = 0, num_sections = 0,
            sections = [], record0 = [], compression = 0, txt_records = 0, firstimg = 0,
            extra_data_flags = 0, meta_array = Map.empty, mobi_length = 0,
            mobi_version = 0, print_replica = False, mobi_codepage = 0, exth_off = 0,
            drm_ptr = 0, drm_count = 0, drm_size = 0\<rparr>"

text \<open>Lines 73 to 92 of the constructor: everything before the call of parseMobiHeader.\<close>

definition MobiBook_init_fields :: "bytes \<Rightarrow> error + mobibook" where
  "MobiBook_init_fields infile =
     (let self = blank\<lparr>data_file := infile\<rparr>;
          self = self\<lparr>header := slice (data_file self) 0 78\<rparr>;
          self = self\<lparr>magic := slice (header self) 0x3C (0x3C + 8)\<rparr>
      in if magic self \<noteq> ''BOOKMOBI'' then Inl MobiException
         else
           let self = self\<lparr>crypto_type := - 1\<rparr> in
           bindE (parseSections self) (\<lambda>self.
           bindE (loadSection self 0) (\<lambda>r0.
           let self = self\<lparr>record0 := r0\<rparr> in
           bindE (unpack_H (slice (record0 self) 0x0 (0x0 + 2))) (\<lambda>c.
           bindE (unpack_H (slice (record0 self) 0x8 (0x8 + 2))) (\<lambda>t.
           Inr (self\<lparr>compression := c, txt_records := t, firstimg := t + 1,
                      extra_data_flags := 0, meta_array := Map.empty,
                      mobi_length := 0, mobi_version := - 1,
                      print_replica := False\<rparr>))))))"

definition MobiBook_init :: "bytes \<Rightarrow> error + mobibook" where
  "MobiBook_init infile = bindE (MobiBook_init_fields infile) parseMobiHeader"

subsection \<open>Attribute lookup and the title property\<close>

definition getattr :: "mobibook \<Rightarrow> string \<Rightarrow> error + ustring" where
  "getattr self name =
     (case EXTH_RMAP_STRINGS name of
        None \<Rightarrow> Inl AttributeError
      | Some tag \<Rightarrow>
          let v = (case meta_array self tag of None \<Rightarrow> [] | Some x \<Rightarrow> x) in
          bindE (case EXTH_MAP_CONVERSIONS tag of
                   Some f \<Rightarrow> if v \<noteq> [] then bindE (unpack_conv f v) (\<lambda>n. Inr (str_nat n))
                             else Inr v
                 | None \<Rightarrow> Inr v)
            (\<lambda>v. unicode v (codepage_encoding (mobi_codepage self))))"

definition title :: "mobibook \<Rightarrow> error + ustring" where
  "title self =
     bindE (getattr self ''updatedtitle'') (\<lambda>title.
     let encoding = codepage_encoding (mobi_codepage self) in
     bindE (if title = []
            then bindE (unpack_II (slice (record0 self) 0x54 0x5c)) (\<lambda>(toff, tlen).
                   unicode (slice (record0 self) toff (toff + tlen)) encoding)
            else Inr title) (\<lambda>title.
     let title = ustrip title in
     if title = []
     then (let title = strip (slice (header self) 0 32) in
           unicode (before_nul title) encoding)
     else Inr title))"


section \<open>The claims in the specification's words\<close>

text \<open>
  The title as the specification describes it: three stages, each trimmed, the first
  non-empty one returned.
\<close>

definition title_spec :: "mobibook \<Rightarrow> error + ustring" where
  "title_spec self =
     (let encoding = codepage_encoding (mobi_codepage self) in
      bindE (getattr self ''updatedtitle'') (\<lambda>t1.
      if ustrip t1 \<noteq> [] then Inr (ustrip t1)
      else
        bindE (unpack_II (slice (record0 self) 0x54 0x5c)) (\<lambda>(toff, tlen).
        bindE (unicode (slice (record0 self) toff (toff + tlen)) encoding) (\<lambda>t2.
        if ustrip t2 \<noteq> [] then Inr (ustrip t2)
        else bindE (unicode (before_nul (slice (header self) 0 32)) encoding)
               (\<lambda>t3. Inr (ustrip t3))))))"

text \<open>
  The records of an EXTH block as the specification walks them: from the cursor, a header
  (tag, totalSize), the payload of totalSize - 8 bytes after the 8-byte header, the cursor
  advanced by totalSize. A record is kept as (tag, position, totalSize, payload).
\<close>

type_synonym exth_rec = "nat \<times> nat \<times> nat \<times> bytes"

fun exth_records :: "bytes \<Rightarrow> nat \<Rightarrow> nat \<Rightarrow> exth_rec list" where
  "exth_records exth 0 pos = []"
| "exth_records exth (Suc k) pos =
     (let tag = be_uint (slice exth pos (pos + 4));
          totalSize = be_uint (slice exth (pos + 4) (pos + 8))
      in (tag, pos, totalSize, take (totalSize - 8) (drop (pos + 8) exth))
         # exth_records exth k (pos + totalSize))"

text \<open>Every record header and payload lies within the slice.\<close>

fun records_within :: "bytes \<Rightarrow> nat \<Rightarrow> nat \<Rightarrow> bool" where
  "records_within exth 0 pos = True"
| "records_within exth (Suc k) pos =
     (let totalSize = be_uint (slice exth (pos + 4) (pos + 8))
      in 8 \<le> totalSize \<and> pos + totalSize \<le> length exth
         \<and> records_within exth k (pos + totalSize))"

definition exth_well_formed :: "bytes \<Rightarrow> bool" where
  "exth_well_formed exth =
     (12 \<le> length exth \<and> take 4 exth = ''EXTH''
      \<and> records_within exth (be_uint (slice exth 8 12)) 12)"

text \<open>Only the 8-byte header read finds enough bytes at each iteration.\<close>

fun headers_within :: "bytes \<Rightarrow> nat \<Rightarrow> nat \<Rightarrow> bool" where
  "headers_within exth 0 pos = True"
| "headers_within exth (Suc k) pos =
     (pos + 8 \<le> length exth
      \<and> headers_within exth k (pos + be_uint (slice exth (pos + 4) (pos + 8))))"

text \<open>What the callback is given, applied record by record.\<close>

definition feed :: "('s \<Rightarrow> nat \<Rightarrow> nat \<Rightarrow> bytes \<Rightarrow> 's) \<Rightarrow> 's \<Rightarrow> exth_rec list \<Rightarrow> 's" where
  "feed callback st recs = foldl (\<lambda>s (t, p, sz, c). callback s t p c) st recs"

definition rec_tag :: "exth_rec \<Rightarrow> nat" where
  "rec_tag r = fst r"

definition rec_pos :: "exth_rec \<Rightarrow> nat" where
  "rec_pos r = fst (snd r)"

definition rec_size :: "exth_rec \<Rightarrow> nat" where
  "rec_size r = fst (snd (snd r))"

definition rec_payload :: "exth_rec \<Rightarrow> bytes" where
  "rec_payload r = snd (snd (snd r))"

section \<open>Sample documents\<close>

text \<open>Big-endian packing and the pieces of a small MOBI file, for concrete inputs.\<close>

fun be_bytes :: "nat \<Rightarrow> nat \<Rightarrow> bytes" where
  "be_bytes 0 n = []"
| "be_bytes (Suc w) n = be_bytes w (n div 256) @ [char_of (n mod 256)]"

definition zeros :: "nat \<Rightarrow> bytes" where
  "zeros k = replicate k (CHR 0x00)"

definition sample_pdb :: "bytes \<Rightarrow> bytes \<Rightarrow> nat \<Rightarrow> bytes" where
  "sample_pdb name tag n =
     take 32 (name @ zeros 32) @ zeros 28 @ tag @ zeros 8 @ be_bytes 2 n"

definition sample_record0 ::
  "nat \<Rightarrow> nat \<Rightarrow> nat \<Rightarrow> nat \<Rightarrow> nat \<Rightarrow> nat \<Rightarrow> bytes \<Rightarrow> bytes" where
  "sample_record0 ml cp ver flag toff tlen body =
     zeros 20 @ be_bytes 4 ml @ zeros 4 @ be_bytes 4 cp @ zeros 52 @ be_bytes 4 toff
     @ be_bytes 4 tlen @ zeros 12 @ be_bytes 4 ver @ zeros 20 @ be_bytes 4 flag
     @ zeros 52 @ body"

definition sample_file :: "bytes \<Rightarrow> bytes \<Rightarrow> bytes" where
  "sample_file name r0 = sample_pdb name ''BOOKMOBI'' 1 @ be_bytes 4 86 @ zeros 4 @ r0"

definition exth_record :: "nat \<Rightarrow> bytes \<Rightarrow> bytes" where
  "exth_record tag content = be_bytes 4 tag @ be_bytes 4 (8 + length content) @ content"

definition exth_block :: "nat \<Rightarrow> bytes \<Rightarrow> bytes" where
  "exth_block n recs = ''EXTH'' @ be_bytes 4 (12 + length recs) @ be_bytes 4 n @ recs"

text \<open>The object the constructor returns for a file it accepts.\<close>

definition parsed :: "bytes \<Rightarrow> mobibook" where
  "parsed infile = (case MobiBook_init infile of Inr b \<Rightarrow> b | Inl e \<Rightarrow> blank)"

text \<open>A PalmDoc file: the format tag is not that of a MOBI book.\<close>

definition palmdoc_file :: bytes where
  "palmdoc_file = sample_pdb ''Name'' ''TEXtREAd'' 0"

text \<open>A MOBI header that declares no section.\<close>

definition no_section_file :: bytes where
  "no_section_file = sample_pdb ''Name'' ''BOOKMOBI'' 0 @ ''rest''"

text \<open>Two sections declared, one descriptor present.\<close>

definition short_table_file :: bytes where
  "short_table_file = sample_pdb ''Name'' ''BOOKMOBI'' 2 @ be_bytes 4 94 @ zeros 4"

text \<open>Two sections, of four and six bytes.\<close>

definition two_section_file :: bytes where
  "two_section_file =
     sample_pdb ''Name'' ''BOOKMOBI'' 2 @ be_bytes 4 94 @ zeros 4 @ be_bytes 4 98 @ zeros 4
     @ ''abcd'' @ ''efghij''"

definition two_section_self :: mobibook where
  "two_section_self =
     blank\<lparr>data_file := two_section_file, header := slice two_section_file 0 78\<rparr>"

text \<open>An object whose section 0 holds two bytes and then an EXTH block of two records.\<close>

definition two_record_self :: mobibook where
  "two_record_self =
     blank\<lparr>record0 := ''xx'' @ exth_block 2 (exth_record 100 ''Al'' @ exth_record 503 ''T''),
           exth_off := 2\<rparr>"

text \<open>
  An EXTH block of three declared items: a record of nine bytes, then one header whose
  total size is zero.
\<close>

definition zero_size_self :: mobibook where
  "zero_size_self =
     blank\<lparr>record0 := exth_block 3 (exth_record 100 ''A'' @ be_bytes 4 101 @ be_bytes 4 0),
           exth_off := 0\<rparr>"




text \<open>
  A header length of 0xE0 with the bytes FF FF at offset 0xF2 of section 0, and a header
  length of 0xE4 with the bytes 00 03 there; both of version 6.
\<close>

definition short_header_record0 :: bytes where
  "short_header_record0 =
     sample_record0 0xE0 1252 6 0 0 0 (zeros 58 @ [CHR 0xFF, CHR 0xFF])"

definition short_header_file :: bytes where
  "short_header_file = sample_file ''Name'' short_header_record0"

definition long_header_record0 :: bytes where
  "long_header_record0 =
     sample_record0 0xE4 1252 6 0 0 0 (zeros 58 @ [CHR 0x00, CHR 0x03])"

definition long_header_file :: bytes where
  "long_header_file = sample_file ''Name'' long_header_record0"

text \<open>
  A file whose EXTH block holds a StartOffset record (tag 116) of three bytes, and an
  object whose index holds a StartOffset of four bytes and an IsLibraryRental (tag 406)
  of eight, under codepage 65001.
\<close>

definition bad_offset_file :: bytes where
  "bad_offset_file =
     sample_file ''Name''
       (sample_record0 0xA8 65001 6 0x40 0 0 (exth_block 1 (exth_record 116 ''abc'')))"

definition offset_self :: mobibook where
  "offset_self =
     blank\<lparr>meta_array := [116 \<mapsto> be_bytes 4 342, 406 \<mapsto> be_bytes 8 1, 100 \<mapsto> ''Al''],
           mobi_codepage := 65001\<rparr>"

text \<open>
  A file with no EXTH block and an empty title range whose PDB name is \<open>Name\<close>
  followed by a space and the NUL padding; and a file whose UpdatedTitle record (tag 503)
  is a single space, whose title range holds \<open>Full\<close> and whose PDB name is
  \<open>Name\<close>.
\<close>

definition padded_name_file :: bytes where
  "padded_name_file = sample_file ''Name '' (sample_record0 0xA8 1252 6 0 0 0 [])"

definition blank_title_file :: bytes where
  "blank_title_file =
     sample_file ''Name''
       (sample_record0 0xA8 1252 6 0x40 205 4
          (exth_block 1 (exth_record 503 '' '') @ ''Full''))"





section \<open>Basic facts\<close>

lemma bindE_simps [simp]:
  "bindE (Inl e) f = Inl e"
  "bindE (Inr x) f = f x"
  by (simp_all add: bindE_def)

lemma length_slice [simp]: "length (slice s a b) = min b (length s) - a"
  by (simp add: slice_def)

lemma slice_decomp:
  assumes "a \<le> b" and "b \<le> length s"
  shows "s = take a s @ slice s a b @ drop b s"
proof -
  have "take a s @ drop a (take b s) = take b s"
    using assms(1) by (metis append_take_drop_id min.absorb1 take_take)
  then show ?thesis
    by (simp add: slice_def flip: append_assoc)
qed

lemma replicate_numeral: "replicate (numeral k) x = x # replicate (pred_numeral k) x"
  by (simp only: numeral_eq_Suc [of k] replicate.simps)

lemma be_bytes_numeral:
  "be_bytes (numeral k) n = be_bytes (pred_numeral k) (n div 256) @ [char_of (n mod 256)]"
  by (simp only: numeral_eq_Suc [of k] be_bytes.simps)

lemmas sample_defs =
  sample_file_def sample_pdb_def sample_record0_def exth_block_def exth_record_def
  zeros_def replicate_numeral be_bytes_numeral

lemmas unpack_defs =
  unpack_H_def unpack_L_def unpack_I_def unpack_Q_def unpack_II_def unpack_LLLL_def
  unpack_LBBBB_def unpack_from_L_def be_uint_def byte_val_def slice_def

section \<open>The format tag\<close>

text \<open>
  C7. A buffer whose eight bytes at offset 0x3C are not the literal \<open>BOOKMOBI\<close> (a buffer
  too short to hold them included) makes the constructor raise MobiException, whatever the
  rest of the buffer holds: the section table is never looked at and no object is
  produced.
\<close>

theorem C7_bad_magic_rejected:
  "slice (slice infile 0 78) 0x3C (0x3C + 8) \<noteq> ''BOOKMOBI''
   \<Longrightarrow> MobiBook_init infile = Inl MobiException"
  by (simp add: MobiBook_init_def MobiBook_init_fields_def Let_def)

theorem C7_witness:
  "slice (slice palmdoc_file 0 78) 0x3C (0x3C + 8) = ''TEXtREAd''
   \<and> MobiBook_init palmdoc_file = Inl MobiException"
proof -
  have tag: "slice (slice palmdoc_file 0 78) 0x3C (0x3C + 8) = ''TEXtREAd''"
    by (simp add: palmdoc_file_def sample_defs slice_def)
  then have "slice (slice palmdoc_file 0 78) 0x3C (0x3C + 8) \<noteq> ''BOOKMOBI''"
    by simp
  from C7_bad_magic_rejected [OF this] tag show ?thesis
    by simp
qed

section \<open>The section table\<close>

lemma for_sections_error:
  "for_sections data idx secs = Inl e \<Longrightarrow> e = StructError"
proof (induction idx arbitrary: secs)
  case Nil
  then show ?case by simp
next
  case (Cons i rest)
  then show ?case
    by (cases "unpack_LBBBB (slice data (78 + i * 8) (78 + i * 8 + 8))")
       (auto simp: unpack_LBBBB_def split: if_splits)
qed

lemma for_sections_length:
  "for_sections data idx secs = Inr r \<Longrightarrow> length r = length secs + length idx"
proof (induction idx arbitrary: secs)
  case Nil
  then show ?case by simp
next
  case (Cons i rest)
  then show ?case
    by (cases "unpack_LBBBB (slice data (78 + i * 8) (78 + i * 8 + 8))")
       (auto simp: unpack_LBBBB_def split: if_splits prod.splits dest!: Cons.IH)
qed

lemma for_sections_truncated:
  "i < n \<Longrightarrow> length data < 78 + n * 8 \<Longrightarrow> for_sections data [i..<n] secs = Inl StructError"
proof (induction "n - i" arbitrary: i secs)
  case 0
  then show ?case by simp
next
  case (Suc d)
  have idx: "[i..<n] = i # [Suc i..<n]"
    using Suc.prems(1) by (simp add: upt_conv_Cons)
  show ?case
  proof (cases "length (slice data (78 + i * 8) (78 + i * 8 + 8)) = 8")
    case False
    then show ?thesis
      by (simp add: idx unpack_LBBBB_def del: length_slice)
  next
    case True
    then have "Suc i < n"
      using Suc.prems(2) by (simp split: if_splits add: min_def)
    moreover have "d = n - Suc i"
      using Suc.hyps(2) by simp
    ultimately have "for_sections data [Suc i..<n] secs' = Inl StructError" for secs'
      using Suc.hyps(1) Suc.prems(2) by blast
    then show ?thesis
      using True by (simp add: idx unpack_LBBBB_def del: length_slice)
  qed
qed

lemma parseSections_Inr:
  assumes "parseSections self = Inr self'"
  shows "\<exists>secs. self' = self\<lparr>num_sections := length secs, sections := secs\<rparr>"
proof -
  from assms obtain n where n: "unpack_H (slice (header self) 76 78) = Inr n"
    by (cases "unpack_H (slice (header self) 76 78)") (simp_all add: parseSections_def)
  from assms n obtain secs where
    secs: "for_sections (data_file self) [0..<n] [] = Inr secs"
    by (cases "for_sections (data_file self) [0..<n] []") (simp_all add: parseSections_def)
  from for_sections_length [OF secs] have "length secs = n"
    by simp
  with assms n secs show ?thesis
    by (auto simp: parseSections_def)
qed

text \<open>
  C4. After the section table has been parsed, loading section \<open>i\<close> below the section
  count returns the slice of the document from that section's offset to the next section's
  offset, and to the document length for the last section. When the two ends are in order
  and inside the document, the document is the bytes before the offset, then the returned
  bytes, then the bytes from the end offset on: the slice ends exactly there.
\<close>

theorem C4_loadSection_slice:
  assumes "parseSections self = Inr self'" and "i < num_sections self'"
  shows "loadSection self' i =
           Inr (slice (data_file self') (fst (sections self' ! i))
                  (if i + 1 = num_sections self' then length (data_file self')
                   else fst (sections self' ! (i + 1))))
         \<and> data_file self' = data_file self
         \<and> (\<forall>r off endoff.
               loadSection self' i = Inr r \<and> off = fst (sections self' ! i)
               \<and> endoff = (if i + 1 = num_sections self' then length (data_file self')
                            else fst (sections self' ! (i + 1)))
               \<and> off \<le> endoff \<and> endoff \<le> length (data_file self')
               \<longrightarrow> data_file self' = take off (data_file self') @ r
                                          @ drop endoff (data_file self'))"
proof -
  from parseSections_Inr [OF assms(1)] obtain secs where
    self': "self' = self\<lparr>num_sections := length secs, sections := secs\<rparr>"
    by blast
  have load: "loadSection self' i =
           Inr (slice (data_file self') (fst (sections self' ! i))
                  (if i + 1 = num_sections self' then length (data_file self')
                   else fst (sections self' ! (i + 1))))"
    using assms(2) by (auto simp: self' loadSection_def list_get_def)
  have data: "data_file self' = data_file self"
    by (simp add: self')
  have "s = take a s @ slice s a b @ drop b s" if "a \<le> b" and "b \<le> length s"
    for s :: bytes and a b
    using that by (rule slice_decomp)
  with load data show ?thesis
    by (simp del: length_slice)
qed

theorem C4_witness:
  "parseSections two_section_self
     = Inr (two_section_self\<lparr>num_sections := 2, sections := [(94, 0, 0), (98, 0, 0)]\<rparr>)
   \<and> loadSection
       (two_section_self\<lparr>num_sections := 2, sections := [(94, 0, 0), (98, 0, 0)]\<rparr>) 0
     = Inr ''abcd''
   \<and> loadSection
       (two_section_self\<lparr>num_sections := 2, sections := [(94, 0, 0), (98, 0, 0)]\<rparr>) 1
     = Inr ''efghij''"
proof -
  let ?b = "two_section_self\<lparr>num_sections := 2, sections := [(94, 0, 0), (98, 0, 0)]\<rparr>"
  have p: "parseSections two_section_self = Inr ?b"
    by (simp add: two_section_self_def two_section_file_def sample_defs blank_def
          parseSections_def unpack_defs upt_conv_Cons)
  have d: "data_file ?b = two_section_file"
    by (simp add: two_section_self_def)
  have "loadSection ?b 0 = Inr (slice two_section_file 94 98)"
    using C4_loadSection_slice [OF p, of 0] by (simp add: d)
  moreover have "loadSection ?b 1 = Inr (slice two_section_file 98 (length two_section_file))"
    using C4_loadSection_slice [OF p, of 1] by (simp add: d)
  moreover have "slice two_section_file 94 98 = ''abcd''"
    by (simp add: two_section_file_def sample_defs slice_def)
  moreover have "slice two_section_file 98 (length two_section_file) = ''efghij''"
    by (simp add: two_section_file_def sample_defs slice_def)
  ultimately show ?thesis
    using p by simp
qed

text \<open>
  C6 (amended). When the buffer carries the format tag and is shorter than
  \<open>78 + count * 8\<close> bytes for the section count it declares, the constructor fails and no
  object is produced; the exception is struct.error, raised by the unpacking of the first
  descriptor that is not wholly there, and not MobiException.
\<close>

theorem C6_truncated_table_struct_error:
  assumes "slice (slice infile 0 78) 0x3C (0x3C + 8) = ''BOOKMOBI''"
    and "unpack_H (slice (slice infile 0 78) 76 78) = Inr n"
    and "length infile < 78 + n * 8"
  shows "MobiBook_init infile = Inl StructError"
proof -
  have "78 \<le> length infile"
    using assms(2) by (simp add: unpack_H_def split: if_splits)
  with assms(3) have "0 < n"
    by (cases n) simp_all
  from for_sections_truncated [OF this assms(3)]
  have "for_sections infile [0..<n] [] = Inl StructError" .
  with assms(1,2) show ?thesis
    by (simp add: MobiBook_init_def MobiBook_init_fields_def parseSections_def Let_def)
qed

theorem C6_witness:
  "slice (slice short_table_file 0 78) 0x3C (0x3C + 8) = ''BOOKMOBI''
   \<and> unpack_H (slice (slice short_table_file 0 78) 76 78) = Inr 2
   \<and> length short_table_file < 78 + 2 * 8
   \<and> MobiBook_init short_table_file = Inl StructError"
proof -
  have a: "slice (slice short_table_file 0 78) 0x3C (0x3C + 8) = ''BOOKMOBI''"
    by (simp add: short_table_file_def sample_defs slice_def)
  have b: "unpack_H (slice (slice short_table_file 0 78) 76 78) = Inr 2"
    by (simp add: short_table_file_def sample_defs unpack_defs)
  have c: "length short_table_file < 78 + 2 * 8"
    by (simp add: short_table_file_def sample_defs)
  from C6_truncated_table_struct_error [OF a b c] a b c show ?thesis
    by simp
qed

theorem C6_counterexample:
  "length short_table_file = 86
   \<and> unpack_H (slice (slice short_table_file 0 78) 76 78) = Inr 2
   \<and> MobiBook_init short_table_file \<noteq> Inl MobiException"
proof -
  have "length short_table_file = 86"
    by (simp add: short_table_file_def sample_defs)
  moreover have "unpack_H (slice (slice short_table_file 0 78) 76 78) = Inr 2"
    by (simp add: short_table_file_def sample_defs unpack_defs)
  moreover have "MobiBook_init short_table_file = Inl StructError"
    by (simp add: short_table_file_def sample_defs MobiBook_init_def
          MobiBook_init_fields_def parseSections_def blank_def unpack_defs upt_conv_Cons)
  ultimately show ?thesis
    by simp
qed

text \<open>
  C9. A buffer that carries the format tag and declares no section never yields an
  object: loading section 0 reads the descriptor of section 1 in the empty table, and the
  constructor raises IndexError, not MobiException.
\<close>

theorem C9_zero_sections_index_error:
  assumes "slice (slice infile 0 78) 0x3C (0x3C + 8) = ''BOOKMOBI''"
    and "unpack_H (slice (slice infile 0 78) 76 78) = Inr 0"
  shows "MobiBook_init infile = Inl IndexError"
  using assms
  by (simp add: MobiBook_init_def MobiBook_init_fields_def parseSections_def
        loadSection_def list_get_def Let_def)

theorem C9_witness:
  "slice (slice no_section_file 0 78) 0x3C (0x3C + 8) = ''BOOKMOBI''
   \<and> unpack_H (slice (slice no_section_file 0 78) 76 78) = Inr 0
   \<and> MobiBook_init no_section_file = Inl IndexError"
proof -
  have a: "slice (slice no_section_file 0 78) 0x3C (0x3C + 8) = ''BOOKMOBI''"
    by (simp add: no_section_file_def sample_defs slice_def)
  have b: "unpack_H (slice (slice no_section_file 0 78) 76 78) = Inr 0"
    by (simp add: no_section_file_def sample_defs unpack_defs)
  from C9_zero_sections_index_error [OF a b] a b show ?thesis
    by simp
qed

section \<open>The EXTH walk\<close>

lemma slice_alt: "slice s a b = take (b - a) (drop a s)"
  by (simp add: slice_def drop_take)

lemma unpack_II_slice:
  assumes "pos + 8 \<le> length exth"
  shows "unpack_II (slice exth pos (pos + 8)) =
           Inr (be_uint (slice exth pos (pos + 4)), be_uint (slice exth (pos + 4) (pos + 8)))"
proof -
  have "take 4 (slice exth pos (pos + 8)) = slice exth pos (pos + 4)"
    by (simp add: slice_alt)
  moreover have "drop 4 (slice exth pos (pos + 8)) = slice exth (pos + 4) (pos + 8)"
    by (simp add: slice_alt drop_take add.commute)
  ultimately show ?thesis
    using assms by (simp add: unpack_II_def)
qed

lemma unpack_II_short:
  "length exth < pos + 8 \<Longrightarrow> unpack_II (slice exth pos (pos + 8)) = Inl StructError"
  by (simp add: unpack_II_def)

lemma feed_Nil [simp]: "feed callback st [] = st"
  by (simp add: feed_def)

lemma feed_Cons [simp]:
  "feed callback st ((t, p, sz, c) # recs) = feed callback (callback st t p c) recs"
  by (simp add: feed_def)

lemma length_exth_records [simp]: "length (exth_records exth n pos) = n"
  by (induction n arbitrary: pos) (simp_all add: Let_def)

lemma exth_loop_headers_within:
  "headers_within exth n pos \<Longrightarrow>
   exth_loop callback exth n pos st =
     (feed callback st (exth_records exth n pos),
      Inr (pos + sum_list (map rec_size (exth_records exth n pos))))"
proof (induction n arbitrary: pos st)
  case 0
  then show ?case by simp
next
  case (Suc k)
  let ?sz = "be_uint (slice exth (pos + 4) (pos + 8))"
  from Suc.prems have hd: "pos + 8 \<le> length exth" and tl: "headers_within exth k (pos + ?sz)"
    by simp_all
  have payload: "slice exth (pos + 8) (pos + ?sz) = take (?sz - 8) (drop (pos + 8) exth)"
    by (simp add: slice_alt)
  show ?case
    by (simp add: unpack_II_slice [OF hd] Suc.IH [OF tl] payload Let_def rec_size_def
          add.assoc)
qed

lemma exth_loop_stops:
  "exth_loop callback exth n pos st = (st', Inl e) \<Longrightarrow> e = StructError"
proof (induction n arbitrary: pos st)
  case 0
  then show ?case by simp
next
  case (Suc k)
  then show ?case
    by (cases "unpack_II (slice exth pos (pos + 8))")
       (auto simp: unpack_II_def split: if_splits)
qed

lemma exth_records_cursor:
  "Suc i < n \<Longrightarrow>
   rec_pos (exth_records exth n pos ! Suc i)
     = rec_pos (exth_records exth n pos ! i) + rec_size (exth_records exth n pos ! i)"
proof (induction n arbitrary: pos i)
  case 0
  then show ?case by simp
next
  case (Suc k)
  show ?case
  proof (cases i)
    case 0
    with Suc.prems obtain k' where "k = Suc k'"
      by (cases k) simp_all
    with 0 show ?thesis
      by (simp add: Let_def rec_pos_def rec_size_def)
  next
    case (Suc j)
    with Suc.prems have "Suc j < k"
      by simp
    from Suc.IH [OF this] Suc show ?thesis
      by (simp add: Let_def)
  qed
qed

lemma exth_records_first:
  "0 < n \<Longrightarrow> rec_pos (exth_records exth n pos ! 0) = pos"
  by (cases n) (simp_all add: Let_def rec_pos_def)

lemma exth_records_header:
  "headers_within exth n pos \<Longrightarrow> r \<in> set (exth_records exth n pos) \<Longrightarrow>
   unpack_II (slice exth (rec_pos r) (rec_pos r + 8)) = Inr (rec_tag r, rec_size r)
   \<and> rec_payload r = slice exth (rec_pos r + 8) (rec_pos r + rec_size r)"
proof (induction n arbitrary: pos)
  case 0
  then show ?case by simp
next
  case (Suc k)
  let ?sz = "be_uint (slice exth (pos + 4) (pos + 8))"
  from Suc.prems(1) have hd: "pos + 8 \<le> length exth" and tl: "headers_within exth k (pos + ?sz)"
    by simp_all
  from Suc.prems(2) consider
    "r = (be_uint (slice exth pos (pos + 4)), pos, ?sz, take (?sz - 8) (drop (pos + 8) exth))"
    | "r \<in> set (exth_records exth k (pos + ?sz))"
    by (auto simp: Let_def)
  then show ?case
  proof cases
    case 1
    have "slice exth (pos + 8) (pos + ?sz) = take (?sz - 8) (drop (pos + 8) exth)"
      by (simp add: slice_alt)
    with 1 show ?thesis
      by (simp add: unpack_II_slice [OF hd] rec_pos_def rec_tag_def rec_size_def
            rec_payload_def)
  next
    case 2
    from Suc.IH [OF tl this] show ?thesis .
  qed
qed

lemma records_within_headers:
  "records_within exth n pos \<Longrightarrow> headers_within exth n pos"
  by (induction n arbitrary: pos) (auto simp: Let_def)

lemma records_within_payload:
  "records_within exth n pos \<Longrightarrow> r \<in> set (exth_records exth n pos) \<Longrightarrow>
   8 \<le> rec_size r \<and> rec_pos r + rec_size r \<le> length exth
   \<and> length (rec_payload r) = rec_size r - 8"
proof (induction n arbitrary: pos)
  case 0
  then show ?case by simp
next
  case (Suc k)
  let ?sz = "be_uint (slice exth (pos + 4) (pos + 8))"
  from Suc.prems(1) have sz: "8 \<le> ?sz" "pos + ?sz \<le> length exth"
    and tl: "records_within exth k (pos + ?sz)"
    by (simp_all add: Let_def)
  from Suc.prems(2) consider
    "r = (be_uint (slice exth pos (pos + 4)), pos, ?sz, take (?sz - 8) (drop (pos + 8) exth))"
    | "r \<in> set (exth_records exth k (pos + ?sz))"
    by (auto simp: Let_def)
  then show ?case
  proof cases
    case 1
    with sz show ?thesis
      by (simp add: rec_pos_def rec_size_def rec_payload_def)
  next
    case 2
    from Suc.IH [OF tl this] show ?thesis .
  qed
qed

lemma records_within_consumed:
  "records_within exth n pos \<Longrightarrow> pos \<le> length exth \<Longrightarrow>
   pos + sum_list (map rec_size (exth_records exth n pos)) \<le> length exth"
proof (induction n arbitrary: pos)
  case 0
  then show ?case by simp
next
  case (Suc k)
  let ?sz = "be_uint (slice exth (pos + 4) (pos + 8))"
  from Suc.prems(1) have sz: "pos + ?sz \<le> length exth"
    and tl: "records_within exth k (pos + ?sz)"
    by (simp_all add: Let_def)
  from Suc.IH [OF tl sz] show ?case
    by (simp add: Let_def rec_size_def add.assoc)
qed

lemma small_size_empty_payload:
  "r \<in> set (exth_records exth n pos) \<Longrightarrow> rec_size r \<le> 8 \<Longrightarrow> rec_payload r = []"
  by (induction n arbitrary: pos) (auto simp: Let_def rec_size_def rec_payload_def)

lemma processEXTH_walk:
  assumes "exth = drop (exth_off self) (record0 self)"
    and "12 \<le> length exth" and "take 4 exth = ''EXTH''"
  shows "processEXTH self callback st =
           (case exth_loop callback exth (be_uint (slice exth 8 12)) 12 st of
              (st', Inl e) \<Rightarrow> (st', Some False)
            | (st', Inr pos) \<Rightarrow> (st', Some True))"
  using assms by (simp add: processEXTH_def Let_def unpack_I_def)

lemma meta_array_storeEXTH [simp]:
  "meta_array (storeEXTH st t p c) = (meta_array st)(t \<mapsto> c)"
  by (simp add: storeEXTH_def)

lemma meta_array_feed_storeEXTH:
  "meta_array (feed storeEXTH st recs)
     = foldl (\<lambda>m r. m(rec_tag r \<mapsto> rec_payload r)) (meta_array st) recs"
proof (induction recs arbitrary: st)
  case Nil
  then show ?case by simp
next
  case (Cons r recs)
  obtain t p sz c where r: "r = (t, p, sz, c)"
    by (cases r) auto
  let ?F = "\<lambda>m r. m(rec_tag r \<mapsto> rec_payload r)"
  have "meta_array (feed storeEXTH st (r # recs))
          = meta_array (feed storeEXTH (storeEXTH st t p c) recs)"
    by (simp add: r)
  also have "\<dots> = foldl ?F (meta_array (storeEXTH st t p c)) recs"
    by (rule Cons.IH)
  also have "meta_array (storeEXTH st t p c) = ?F (meta_array st) r"
    by (simp add: r rec_tag_def rec_payload_def)
  finally show ?case
    by (simp only: foldl_Cons)
qed

lemma exth_records_position:
  "i < n \<Longrightarrow>
   rec_pos (exth_records exth n pos ! i)
     = pos + sum_list (map rec_size (take i (exth_records exth n pos)))"
proof (induction n arbitrary: pos i)
  case 0
  then show ?case by simp
next
  case (Suc k)
  show ?case
  proof (cases i)
    case 0
    then show ?thesis
      by (simp add: Let_def rec_pos_def)
  next
    case (Suc j)
    with Suc.prems have "j < k"
      by simp
    from Suc.IH [OF this] Suc show ?thesis
      by (simp add: Let_def rec_size_def add.assoc)
  qed
qed

lemma exth_loop_numeral:
  "exth_loop callback exth (numeral k) pos st =
     (case unpack_II (slice exth pos (pos + 8)) of
        Inl e \<Rightarrow> (st, Inl e)
      | Inr (exth_type, size') \<Rightarrow>
          exth_loop callback exth (pred_numeral k) (pos + size')
            (callback st exth_type pos (slice exth (pos + 8) (pos + size'))))"
  by (simp only: numeral_eq_Suc [of k] exth_loop.simps)

lemma exth_records_numeral:
  "exth_records exth (numeral k) pos =
     (let tag = be_uint (slice exth pos (pos + 4));
          totalSize = be_uint (slice exth (pos + 4) (pos + 8))
      in (tag, pos, totalSize, take (totalSize - 8) (drop (pos + 8) exth))
         # exth_records exth (pred_numeral k) (pos + totalSize))"
  by (simp only: numeral_eq_Suc [of k] exth_records.simps)

lemma records_within_numeral:
  "records_within exth (numeral k) pos =
     (let totalSize = be_uint (slice exth (pos + 4) (pos + 8))
      in 8 \<le> totalSize \<and> pos + totalSize \<le> length exth
         \<and> records_within exth (pred_numeral k) (pos + totalSize))"
  by (simp only: numeral_eq_Suc [of k] records_within.simps)

lemma headers_within_numeral:
  "headers_within exth (numeral k) pos =
     (pos + 8 \<le> length exth
      \<and> headers_within exth (pred_numeral k) (pos + be_uint (slice exth (pos + 4) (pos + 8))))"
  by (simp only: numeral_eq_Suc [of k] headers_within.simps)

lemmas walk_numerals =
  exth_loop_numeral exth_records_numeral records_within_numeral headers_within_numeral

text \<open>
  C5. For a well-formed EXTH block (the slice from the EXTH offset on has at least 12
  bytes, starts with \<open>EXTH\<close>, and every record, header and payload, lies within it),
  the walk succeeds, and what the callback receives is exactly the records of the
  specification's walk from offset 12: as many as the declared item count, each read from
  its 8-byte header (tag, totalSize) with a payload of totalSize - 8 bytes, the cursor of
  record \<open>i\<close> being 12 plus the total sizes before it, and 12 plus all total sizes being
  the final cursor, inside the slice. With storeEXTH as callback each payload is stored
  under its tag, a later record overwriting an earlier one of the same tag.
\<close>

theorem C5_well_formed_walk:
  assumes "exth = drop (exth_off self) (record0 self)"
    and "exth_well_formed exth"
    and "nitems = be_uint (slice exth 8 12)"
    and "recs = exth_records exth nitems 12"
  shows "processEXTH self callback st = (feed callback st recs, Some True)
       \<and> exth_loop callback exth nitems 12 st
           = (feed callback st recs, Inr (12 + sum_list (map rec_size recs)))
       \<and> length recs = nitems
       \<and> (\<forall>r \<in> set recs.
             unpack_II (slice exth (rec_pos r) (rec_pos r + 8)) = Inr (rec_tag r, rec_size r)
             \<and> rec_payload r = slice exth (rec_pos r + 8) (rec_pos r + rec_size r)
             \<and> length (rec_payload r) = rec_size r - 8)
       \<and> (\<forall>i. i < nitems \<longrightarrow>
             rec_pos (recs ! i) = 12 + sum_list (map rec_size (take i recs)))
       \<and> 12 + sum_list (map rec_size recs) \<le> length exth
       \<and> meta_array (fst (processEXTH self storeEXTH b))
           = foldl (\<lambda>m r. m(rec_tag r \<mapsto> rec_payload r)) (meta_array b) recs"
proof -
  from assms(2) have len: "12 \<le> length exth" and tag: "take 4 exth = ''EXTH''"
    and within: "records_within exth nitems 12"
    by (simp_all add: exth_well_formed_def assms(3))
  have heads: "headers_within exth nitems 12"
    using within by (rule records_within_headers)
  have loop: "exth_loop cb exth nitems 12 s
                = (feed cb s recs, Inr (12 + sum_list (map rec_size recs)))" for cb s
    unfolding assms(4) by (rule exth_loop_headers_within [OF heads])
  have walk: "processEXTH self cb s = (feed cb s recs, Some True)" for cb s
    by (simp add: processEXTH_walk [OF assms(1) len tag] loop flip: assms(3))
  have each: "\<forall>r \<in> set recs.
             unpack_II (slice exth (rec_pos r) (rec_pos r + 8)) = Inr (rec_tag r, rec_size r)
             \<and> rec_payload r = slice exth (rec_pos r + 8) (rec_pos r + rec_size r)
             \<and> length (rec_payload r) = rec_size r - 8"
    using exth_records_header [OF heads] records_within_payload [OF within]
    by (simp add: assms(4))
  have cursor: "\<forall>i. i < nitems \<longrightarrow>
             rec_pos (recs ! i) = 12 + sum_list (map rec_size (take i recs))"
    by (simp add: assms(4) exth_records_position)
  have consumed: "12 + sum_list (map rec_size recs) \<le> length exth"
    unfolding assms(4) by (rule records_within_consumed [OF within len])
  have count: "length recs = nitems"
    by (simp add: assms(4))
  have stored: "meta_array (fst (processEXTH self storeEXTH b))
           = foldl (\<lambda>m r. m(rec_tag r \<mapsto> rec_payload r)) (meta_array b) recs"
    by (simp add: walk meta_array_feed_storeEXTH)
  from walk [of callback st] loop [of callback st] count each cursor consumed stored
  show ?thesis
    by blast
qed

theorem C5_witness:
  "exth_well_formed (drop (exth_off two_record_self) (record0 two_record_self))
   \<and> be_uint (slice (drop (exth_off two_record_self) (record0 two_record_self)) 8 12) = 2
   \<and> exth_records (drop (exth_off two_record_self) (record0 two_record_self)) 2 12
       = [(100, 12, 10, ''Al''), (503, 22, 9, ''T'')]
   \<and> length (drop (exth_off two_record_self) (record0 two_record_self)) = 12 + (10 + 9)
   \<and> snd (processEXTH two_record_self storeEXTH blank) = Some True
   \<and> meta_array (fst (processEXTH two_record_self storeEXTH blank))
       = [100 \<mapsto> ''Al'', 503 \<mapsto> ''T'']"
proof -
  let ?exth = "drop (exth_off two_record_self) (record0 two_record_self)"
  let ?recs = "[(100, 12, 10, ''Al''), (503, 22, 9, ''T'')] :: exth_rec list"
  have exth: "?exth = exth_block 2 (exth_record 100 ''Al'' @ exth_record 503 ''T'')"
    by (simp add: two_record_self_def blank_def)
  have n: "be_uint (slice ?exth 8 12) = 2"
    by (simp add: exth sample_defs unpack_defs)
  have wf: "exth_well_formed ?exth"
    unfolding exth_well_formed_def n
    by (simp add: exth sample_defs unpack_defs walk_numerals)
  have recs: "?recs = exth_records ?exth 2 12"
    by (simp add: exth sample_defs unpack_defs walk_numerals)
  have len: "length ?exth = 12 + (10 + 9)"
    by (simp add: exth sample_defs)
  note walk = C5_well_formed_walk [OF refl wf n [symmetric] recs, of storeEXTH blank blank]
  from walk
  have "processEXTH two_record_self storeEXTH blank = (feed storeEXTH blank ?recs, Some True)"
    by blast
  moreover from walk
  have "meta_array (fst (processEXTH two_record_self storeEXTH blank))
           = foldl (\<lambda>m r. m(rec_tag r \<mapsto> rec_payload r)) (meta_array blank) ?recs"
    by blast
  ultimately have "snd (processEXTH two_record_self storeEXTH blank) = Some True"
    and "meta_array (fst (processEXTH two_record_self storeEXTH blank))
           = [100 \<mapsto> ''Al'', 503 \<mapsto> ''T'']"
    by (simp_all add: rec_tag_def rec_payload_def blank_def)
  with wf n recs len show ?thesis
    by simp
qed

text \<open>
  C10. In the EXTH walk a record header whose total size is below 8 does not abort the
  parse. Whenever the slice carries the tag, has its 12 leading bytes, and each of the
  header reads of the walk finds its 8 bytes, processEXTH reports success after exactly
  the declared number of iterations; the callback receives the records of the
  specification's walk, a record whose total size is below 8 with an empty payload; and
  the cursor of each iteration is the previous cursor plus the previous total size, so a
  total size of 0 makes the next iteration read the same header again.
\<close>

theorem C10_small_size_tolerated:
  assumes "exth = drop (exth_off self) (record0 self)"
    and "12 \<le> length exth" and "take 4 exth = ''EXTH''"
    and "nitems = be_uint (slice exth 8 12)"
    and "headers_within exth nitems 12"
    and "recs = exth_records exth nitems 12"
  shows "processEXTH self callback st = (feed callback st recs, Some True)
       \<and> length recs = nitems
       \<and> (\<forall>r \<in> set recs.
             unpack_II (slice exth (rec_pos r) (rec_pos r + 8)) = Inr (rec_tag r, rec_size r)
             \<and> (rec_size r < 8 \<longrightarrow> rec_payload r = []))
       \<and> (\<forall>i. Suc i < nitems \<longrightarrow>
             rec_pos (recs ! Suc i) = rec_pos (recs ! i) + rec_size (recs ! i))
       \<and> meta_array (fst (processEXTH self storeEXTH b))
           = foldl (\<lambda>m r. m(rec_tag r \<mapsto> rec_payload r)) (meta_array b) recs"
proof -
  have loop: "exth_loop cb exth nitems 12 s
                = (feed cb s recs, Inr (12 + sum_list (map rec_size recs)))" for cb s
    unfolding assms(6) by (rule exth_loop_headers_within [OF assms(5)])
  have walk: "processEXTH self cb s = (feed cb s recs, Some True)" for cb s
    by (simp add: processEXTH_walk [OF assms(1-3)] loop flip: assms(4))
  have each: "\<forall>r \<in> set recs.
             unpack_II (slice exth (rec_pos r) (rec_pos r + 8)) = Inr (rec_tag r, rec_size r)
             \<and> (rec_size r < 8 \<longrightarrow> rec_payload r = [])"
  proof (intro ballI conjI impI)
    fix r
    assume "r \<in> set recs"
    then have r: "r \<in> set (exth_records exth nitems 12)"
      by (simp only: assms(6))
    from exth_records_header [OF assms(5) r]
    show "unpack_II (slice exth (rec_pos r) (rec_pos r + 8)) = Inr (rec_tag r, rec_size r)"
      by blast
    show "rec_payload r = []" if "rec_size r < 8"
      using small_size_empty_payload [OF r] that by simp
  qed
  have cursor: "\<forall>i. Suc i < nitems \<longrightarrow>
             rec_pos (recs ! Suc i) = rec_pos (recs ! i) + rec_size (recs ! i)"
    by (simp add: assms(6) exth_records_cursor)
  have count: "length recs = nitems"
    by (simp add: assms(6))
  have stored: "meta_array (fst (processEXTH self storeEXTH b))
           = foldl (\<lambda>m r. m(rec_tag r \<mapsto> rec_payload r)) (meta_array b) recs"
    by (simp add: walk meta_array_feed_storeEXTH)
  from walk [of callback st] count each cursor stored show ?thesis
    by blast
qed

theorem C10_witness:
  "12 \<le> length (drop (exth_off zero_size_self) (record0 zero_size_self))
   \<and> take 4 (drop (exth_off zero_size_self) (record0 zero_size_self)) = ''EXTH''
   \<and> be_uint (slice (drop (exth_off zero_size_self) (record0 zero_size_self)) 8 12) = 3
   \<and> headers_within (drop (exth_off zero_size_self) (record0 zero_size_self)) 3 12
   \<and> exth_records (drop (exth_off zero_size_self) (record0 zero_size_self)) 3 12
       = [(100, 12, 9, ''A''), (101, 21, 0, []), (101, 21, 0, [])]
   \<and> snd (processEXTH zero_size_self storeEXTH blank) = Some True
   \<and> meta_array (fst (processEXTH zero_size_self storeEXTH blank))
       = [100 \<mapsto> ''A'', 101 \<mapsto> []]"
proof -
  let ?exth = "drop (exth_off zero_size_self) (record0 zero_size_self)"
  let ?recs = "[(100, 12, 9, ''A''), (101, 21, 0, []), (101, 21, 0, [])] :: exth_rec list"
  have exth: "?exth = exth_block 3 (exth_record 100 ''A'' @ be_bytes 4 101 @ be_bytes 4 0)"
    by (simp add: zero_size_self_def blank_def)
  have len: "12 \<le> length ?exth"
    by (simp add: exth sample_defs)
  have tag: "take 4 ?exth = ''EXTH''"
    by (simp add: exth sample_defs)
  have n: "be_uint (slice ?exth 8 12) = 3"
    by (simp add: exth sample_defs unpack_defs)
  have heads: "headers_within ?exth 3 12"
    by (simp add: exth sample_defs unpack_defs walk_numerals)
  have recs: "?recs = exth_records ?exth 3 12"
    by (simp add: exth sample_defs unpack_defs walk_numerals)
  from heads have heads': "headers_within ?exth (be_uint (slice ?exth 8 12)) 12"
    by (simp only: n)
  from recs have recs': "?recs = exth_records ?exth (be_uint (slice ?exth 8 12)) 12"
    by (simp only: n)
  note walk = C10_small_size_tolerated [OF refl len tag refl heads' recs', of storeEXTH blank blank]
  from walk
  have "processEXTH zero_size_self storeEXTH blank = (feed storeEXTH blank ?recs, Some True)"
    by blast
  moreover from walk
  have "meta_array (fst (processEXTH zero_size_self storeEXTH blank))
           = foldl (\<lambda>m r. m(rec_tag r \<mapsto> rec_payload r)) (meta_array blank) ?recs"
    by blast
  ultimately have "snd (processEXTH zero_size_self storeEXTH blank) = Some True"
    and "meta_array (fst (processEXTH zero_size_self storeEXTH blank))
           = [100 \<mapsto> ''A'', 101 \<mapsto> []]"
    by (simp_all add: rec_tag_def rec_payload_def blank_def)
  with len tag n heads recs show ?thesis
    by simp
qed

section \<open>The document header\<close>

lemma exth_loop_fails:
  "\<not> headers_within exth n pos \<Longrightarrow> snd (exth_loop callback exth n pos st) = Inl StructError"
proof (induction n arbitrary: pos st)
  case 0
  then show ?case by simp
next
  case (Suc k)
  show ?case
  proof (cases "pos + 8 \<le> length exth")
    case True
    with Suc.prems
    have "\<not> headers_within exth k (pos + be_uint (slice exth (pos + 4) (pos + 8)))"
      by simp
    from Suc.IH [OF this] show ?thesis
      by (simp add: unpack_II_slice [OF True])
  next
    case False
    then show ?thesis
      by (simp add: unpack_II_short)
  qed
qed

lemma processEXTH_outcome:
  "snd (processEXTH self callback st) =
     (let exth = drop (exth_off self) (record0 self) in
      if length exth < 12 \<or> take 4 exth \<noteq> ''EXTH'' then None
      else if headers_within exth (be_uint (slice exth 8 12)) 12 then Some True
      else Some False)"
proof -
  let ?exth = "drop (exth_off self) (record0 self)"
  let ?n = "be_uint (slice ?exth 8 12)"
  show ?thesis
  proof (cases "length ?exth < 12 \<or> take 4 ?exth \<noteq> ''EXTH''")
    case True
    then show ?thesis
      by (auto simp: processEXTH_def Let_def)
  next
    case False
    then have len: "12 \<le> length ?exth" and tag: "take 4 ?exth = ''EXTH''"
      by auto
    note walk = processEXTH_walk [OF refl len tag, of callback st]
    show ?thesis
    proof (cases "headers_within ?exth ?n 12")
      case True
      from exth_loop_headers_within [OF this, of callback st] walk len tag True
      show ?thesis
        by (simp add: Let_def)
    next
      case no: False
      obtain st' r where loop: "exth_loop callback ?exth ?n 12 st = (st', r)"
        by (cases "exth_loop callback ?exth ?n 12 st") auto
      with exth_loop_fails [OF no, of callback st] have "r = Inl StructError"
        by simp
      with walk loop len tag no show ?thesis
        by (simp add: Let_def)
    qed
  qed
qed

lemma exth_loop_storeEXTH_frame:
  "\<exists>m. fst (exth_loop storeEXTH exth n pos st) = st\<lparr>meta_array := m\<rparr>"
proof (induction n arbitrary: pos st)
  case 0
  show ?case
    by (rule exI [of _ "meta_array st"]) simp
next
  case (Suc k)
  show ?case
  proof (cases "unpack_II (slice exth pos (pos + 8))")
    case (Inl e)
    show ?thesis
      by (rule exI [of _ "meta_array st"]) (simp add: Inl)
  next
    case (Inr ts)
    obtain t sz where ts: "ts = (t, sz)"
      by (cases ts) auto
    let ?st = "storeEXTH st t pos (slice exth (pos + 8) (pos + sz))"
    from Suc.IH [of "pos + sz" ?st] obtain m where
      "fst (exth_loop storeEXTH exth k (pos + sz) ?st) = ?st\<lparr>meta_array := m\<rparr>"
      by blast
    then have "fst (exth_loop storeEXTH exth (Suc k) pos st) = st\<lparr>meta_array := m\<rparr>"
      by (simp add: Inr ts storeEXTH_def)
    then show ?thesis
      by blast
  qed
qed

lemma processEXTH_storeEXTH_frame:
  "processEXTH self storeEXTH st = (st', r) \<Longrightarrow> \<exists>m. st' = st\<lparr>meta_array := m\<rparr>"
proof -
  assume pe: "processEXTH self storeEXTH st = (st', r)"
  let ?exth = "drop (exth_off self) (record0 self)"
  show ?thesis
  proof (cases "length ?exth < 12 \<or> take 4 ?exth \<noteq> ''EXTH''")
    case True
    with pe have "st' = st"
      by (auto simp: processEXTH_def Let_def)
    then show ?thesis
      by (intro exI [of _ "meta_array st"]) simp
  next
    case False
    then have len: "12 \<le> length ?exth" and tag: "take 4 ?exth = ''EXTH''"
      by auto
    let ?n = "be_uint (slice ?exth 8 12)"
    from exth_loop_storeEXTH_frame [of ?exth ?n 12 st] obtain m where
      m: "fst (exth_loop storeEXTH ?exth ?n 12 st) = st\<lparr>meta_array := m\<rparr>"
      by blast
    from pe processEXTH_walk [OF refl len tag, of storeEXTH st]
    have "st' = fst (exth_loop storeEXTH ?exth ?n 12 st)"
      by (cases "exth_loop storeEXTH ?exth ?n 12 st") (auto split: sum.splits)
    with m show ?thesis
      by (intro exI [of _ m]) simp
  qed
qed

lemma parseMobiHeader_reads:
  assumes "0xB8 \<le> length r0"
  shows "unpack_L (slice r0 0x14 0x18) = Inr (be_uint (slice r0 0x14 0x18))"
    and "unpack_L (slice r0 0x1c 0x20) = Inr (be_uint (slice r0 0x1c 0x20))"
    and "unpack_L (slice r0 0x68 0x6C) = Inr (be_uint (slice r0 0x68 0x6C))"
    and "unpack_from_L r0 0x6C = Inr (be_uint (slice r0 0x6C 0x70))"
    and "unpack_H (slice r0 0xC 0xE) = Inr (be_uint (slice r0 0xC 0xE))"
    and "\<exists>q. unpack_LLLL (slice r0 0xA8 0xB8) = Inr q"
    and "unpack_L (slice r0 0x80 0x84) = Inr (be_uint (slice r0 0x80 0x84))"
  using assms
  by (simp_all add: unpack_L_def unpack_H_def unpack_from_L_def unpack_LLLL_def min_def)

lemma exth_stage:
  fixes s3 :: mobibook and flag :: nat
  defines "res \<equiv>
     (if flag AND 0x40 \<noteq> 0
      then (case processEXTH s3 storeEXTH s3 of
              (self', r) \<Rightarrow>
                if r \<noteq> Some True then Inr (self'\<lparr>meta_array := Map.empty\<rparr>)
                else Inr self')
      else (Inr s3 :: error + mobibook))"
  shows "\<exists>b m. res = Inr b \<and> b = s3\<lparr>meta_array := m\<rparr>
           \<and> (flag AND 0x40 \<noteq> 0 \<and> snd (processEXTH s3 storeEXTH s3) \<noteq> Some True
                \<longrightarrow> m = Map.empty)"
proof (cases "flag AND 0x40 \<noteq> 0")
  case False
  then have "res = Inr s3"
    by (simp add: res_def)
  with False show ?thesis
    by (intro exI [of _ s3] exI [of _ "meta_array s3"]) simp
next
  case True
  obtain s' r where pe: "processEXTH s3 storeEXTH s3 = (s', r)"
    by (cases "processEXTH s3 storeEXTH s3") auto
  from processEXTH_storeEXTH_frame [OF pe] obtain m where s': "s' = s3\<lparr>meta_array := m\<rparr>"
    by blast
  show ?thesis
  proof (cases "r = Some True")
    case ok: True
    with True pe have "res = Inr s'"
      by (simp add: res_def)
    with s' pe ok show ?thesis
      by (intro exI [of _ s'] exI [of _ m]) simp
  next
    case bad: False
    with True pe have "res = Inr (s'\<lparr>meta_array := Map.empty\<rparr>)"
      by (simp add: res_def)
    with s' show ?thesis
      by (intro exI [of _ "s'\<lparr>meta_array := Map.empty\<rparr>"] exI [of _ Map.empty]) simp
  qed
qed

lemma parseMobiHeader_ok:
  assumes len: "0xB8 \<le> length (record0 self)"
    and flags: "0xE4 \<le> be_uint (slice (record0 self) 0x14 0x18)
                \<and> 5 \<le> be_uint (slice (record0 self) 0x68 0x6C)
                \<longrightarrow> 0xF4 \<le> length (record0 self)"
  shows "\<exists>b. parseMobiHeader self = Inr b
     \<and> record0 b = record0 self \<and> header b = header self
     \<and> mobi_length b = be_uint (slice (record0 self) 0x14 0x18)
     \<and> mobi_version b = int (be_uint (slice (record0 self) 0x68 0x6C))
     \<and> mobi_codepage b = be_uint (slice (record0 self) 0x1c 0x20)
     \<and> extra_data_flags b =
         (if 0xE4 \<le> be_uint (slice (record0 self) 0x14 0x18)
             \<and> 5 \<le> be_uint (slice (record0 self) 0x68 0x6C)
          then be_uint (slice (record0 self) 0xF2 0xF4) else extra_data_flags self)
     \<and> (be_uint (slice (record0 self) 0x80 0x84) AND 0x40 \<noteq> 0
          \<and> snd (processEXTH
                   (self\<lparr>exth_off := be_uint (slice (record0 self) 0x14 0x18) + 16\<rparr>)
                   storeEXTH self) \<noteq> Some True
          \<longrightarrow> meta_array b = Map.empty)"
proof -
  let ?r0 = "record0 self"
  let ?ml = "be_uint (slice ?r0 0x14 0x18)"
  let ?ver = "be_uint (slice ?r0 0x68 0x6C)"
  let ?flag = "be_uint (slice ?r0 0x80 0x84)"
  let ?x = "if 0xE4 \<le> ?ml \<and> 5 \<le> ?ver then be_uint (slice ?r0 0xF2 0xF4)
            else extra_data_flags self"
  note rd = parseMobiHeader_reads [OF len]
  from rd(6) obtain dp dc ds dr where
    drm: "unpack_LLLL (slice ?r0 0xA8 0xB8) = Inr (dp, dc, ds, dr)"
    by (metis prod_cases4)
  let ?s3 = "self\<lparr>mobi_length := ?ml, mobi_codepage := be_uint (slice ?r0 0x1c 0x20),
                   mobi_version := int ?ver, exth_off := ?ml + 16,
                   firstimg := be_uint (slice ?r0 0x6C 0x70),
                   extra_data_flags := ?x,
                   crypto_type := int (be_uint (slice ?r0 0xC 0xE)),
                   drm_ptr := dp, drm_count := dc, drm_size := ds\<rparr>"
  have run: "parseMobiHeader self =
     (if ?flag AND 0x40 \<noteq> 0
      then (case processEXTH ?s3 storeEXTH ?s3 of
              (self', r) \<Rightarrow>
                if r \<noteq> Some True then Inr (self'\<lparr>meta_array := Map.empty\<rparr>)
                else Inr self')
      else Inr ?s3)"
  proof (cases "0xE4 \<le> ?ml \<and> 5 \<le> ?ver")
    case True
    with flags have "0xF4 \<le> length ?r0"
      by simp
    then have xf: "unpack_H (slice ?r0 0xF2 0xF4) = Inr (be_uint (slice ?r0 0xF2 0xF4))"
      by (simp add: unpack_H_def min_def)
    from True show ?thesis
      by (simp add: parseMobiHeader_def rd(1-5,7) drm xf Let_def)
  next
    case False
    then consider "\<not> 0xE4 \<le> ?ml" | "\<not> 5 \<le> ?ver"
      by blast
    then show ?thesis
      by cases (simp_all add: parseMobiHeader_def rd(1-5,7) drm Let_def)
  qed
  from exth_stage [of ?flag ?s3] obtain b m where
    b: "parseMobiHeader self = Inr b" "b = ?s3\<lparr>meta_array := m\<rparr>"
    and m: "?flag AND 0x40 \<noteq> 0 \<and> snd (processEXTH ?s3 storeEXTH ?s3) \<noteq> Some True
            \<longrightarrow> m = Map.empty"
    unfolding run [symmetric] by blast
  have "snd (processEXTH ?s3 storeEXTH ?s3)
          = snd (processEXTH (self\<lparr>exth_off := ?ml + 16\<rparr>) storeEXTH self)"
    by (simp add: processEXTH_outcome)
  with m have "?flag AND 0x40 \<noteq> 0
          \<and> snd (processEXTH (self\<lparr>exth_off := ?ml + 16\<rparr>) storeEXTH self) \<noteq> Some True
          \<longrightarrow> meta_array b = Map.empty"
    by (simp add: b(2))
  with b show ?thesis
    by (intro exI [of _ b]) simp
qed

lemma parseMobiHeader_short:
  assumes len: "0xB8 \<le> length (record0 self)"
    and cond: "0xE4 \<le> be_uint (slice (record0 self) 0x14 0x18)"
      "5 \<le> be_uint (slice (record0 self) 0x68 0x6C)"
    and short: "unpack_H (slice (record0 self) 0xF2 0xF4) = Inl e"
  shows "parseMobiHeader self = Inl e"
  using cond
  by (simp add: parseMobiHeader_def parseMobiHeader_reads(1-4) [OF len] short Let_def)

lemma bindE_InrE:
  assumes "bindE m f = Inr y"
  obtains x where "m = Inr x" and "f x = Inr y"
  using assms by (cases m) simp_all

lemma MobiBook_init_fields_defaults:
  assumes "MobiBook_init_fields infile = Inr self0"
  shows "extra_data_flags self0 = 0" and "meta_array self0 = Map.empty"
    and "header self0 = slice infile 0 78" and "data_file self0 = infile"
proof -
  let ?s = "blank\<lparr>data_file := infile, header := slice infile 0 78,
                   magic := slice (slice infile 0 78) 0x3C (0x3C + 8), crypto_type := - 1\<rparr>"
  from assms have rest: "bindE (parseSections ?s) (\<lambda>self.
           bindE (loadSection self 0) (\<lambda>r0.
           bindE (unpack_H (slice r0 0x0 (0x0 + 2))) (\<lambda>c.
           bindE (unpack_H (slice r0 0x8 (0x8 + 2))) (\<lambda>t.
           Inr (self\<lparr>record0 := r0, compression := c, txt_records := t, firstimg := t + 1,
                      extra_data_flags := 0, meta_array := Map.empty,
                      mobi_length := 0, mobi_version := - 1,
                      print_replica := False\<rparr>))))) = Inr self0"
    by (simp add: MobiBook_init_fields_def Let_def split: if_splits)
  then obtain s1 where s1: "parseSections ?s = Inr s1"
    and rest1: "bindE (loadSection s1 0) (\<lambda>r0.
           bindE (unpack_H (slice r0 0x0 (0x0 + 2))) (\<lambda>c.
           bindE (unpack_H (slice r0 0x8 (0x8 + 2))) (\<lambda>t.
           Inr (s1\<lparr>record0 := r0, compression := c, txt_records := t, firstimg := t + 1,
                      extra_data_flags := 0, meta_array := Map.empty,
                      mobi_length := 0, mobi_version := - 1,
                      print_replica := False\<rparr>)))) = Inr self0"
    by (rule bindE_InrE)
  from rest1 obtain r0 c t where
    self0: "self0 = s1\<lparr>record0 := r0, compression := c, txt_records := t, firstimg := t + 1,
                      extra_data_flags := 0, meta_array := Map.empty,
                      mobi_length := 0, mobi_version := - 1,
                      print_replica := False\<rparr>"
    by (auto elim!: bindE_InrE)
  from parseSections_Inr [OF s1] obtain secs where
    "s1 = ?s\<lparr>num_sections := length secs, sections := secs\<rparr>"
    by blast
  with self0 show "extra_data_flags self0 = 0" and "meta_array self0 = Map.empty"
    and "header self0 = slice infile 0 78" and "data_file self0 = infile"
    by simp_all
qed

lemma unicode_empty [simp]: "unicode [] (codepage_encoding cp) = Inr []"
  by (simp add: codepage_encoding_def CODEPAGE_MAP_def DEFAULT_ENCODING_def unicode_def
        utf8_decode_def)


lemma sample_file_fields:
  assumes "10 \<le> length r0"
  shows "\<exists>self0. MobiBook_init_fields (sample_file ''Name'' r0) = Inr self0
           \<and> record0 self0 = r0
           \<and> header self0 = sample_pdb ''Name'' ''BOOKMOBI'' 1"
  using assms
  by (simp add: sample_defs MobiBook_init_fields_def blank_def parseSections_def
        loadSection_def list_get_def unpack_defs min_def Let_def)



text \<open>
  C8. Take a file for which the constructor reaches the header parse with a section 0 of
  at least 0xB8 bytes, of header length \<open>ml\<close> and version \<open>ver\<close>. Unless
  \<open>ml \<ge> 0xE4\<close> and \<open>ver \<ge> 5\<close>, the constructor returns an object whose
  extra_data_flags is 0, whether or not section 0 has bytes at offset 0xF2 and whatever
  they are. When both hold, the two bytes at 0xF2 are unpacked: the object carries their
  value, and the constructor raises struct.error when they are not there.
\<close>

theorem C8_extra_data_flags:
  assumes "MobiBook_init_fields infile = Inr self0"
    and "r0 = record0 self0"
    and "0xB8 \<le> length r0"
    and "ml = be_uint (slice r0 0x14 0x18)"
    and "ver = be_uint (slice r0 0x68 0x6C)"
  shows "if 0xE4 \<le> ml \<and> 5 \<le> ver
         then (case unpack_H (slice r0 0xF2 0xF4) of
                 Inl e \<Rightarrow> MobiBook_init infile = Inl e
               | Inr f \<Rightarrow>
                   \<exists>b. MobiBook_init infile = Inr b \<and> mobi_length b = ml
                       \<and> mobi_version b = int ver \<and> extra_data_flags b = f)
         else \<exists>b. MobiBook_init infile = Inr b \<and> mobi_length b = ml
                  \<and> mobi_version b = int ver \<and> extra_data_flags b = 0"
proof -
  have len: "0xB8 \<le> length (record0 self0)"
    using assms(2,3) by simp
  have init: "MobiBook_init infile = parseMobiHeader self0"
    by (simp add: MobiBook_init_def assms(1))
  have zero: "extra_data_flags self0 = 0"
    using assms(1) by (rule MobiBook_init_fields_defaults)
  show ?thesis
  proof (cases "0xE4 \<le> ml \<and> 5 \<le> ver")
    case False
    with parseMobiHeader_ok [OF len] obtain b where
      "parseMobiHeader self0 = Inr b" "mobi_length b = ml" "mobi_version b = int ver"
      "extra_data_flags b = extra_data_flags self0"
      unfolding assms(4,5,2) by auto
    with False zero init show ?thesis
      by auto
  next
    case True
    show ?thesis
    proof (cases "unpack_H (slice r0 0xF2 0xF4)")
      case (Inl e)
      with True parseMobiHeader_short [OF len, of e] init show ?thesis
        by (simp add: assms(2,4,5))
    next
      case (Inr f)
      then have f: "0xF4 \<le> length r0" "f = be_uint (slice r0 0xF2 0xF4)"
        by (auto simp: unpack_H_def min_def split: if_splits)
      with True parseMobiHeader_ok [OF len] obtain b where
        "parseMobiHeader self0 = Inr b" "mobi_length b = ml" "mobi_version b = int ver"
        "extra_data_flags b = f"
        unfolding assms(4,5,2) by auto
      with True Inr init show ?thesis
        by auto
    qed
  qed
qed

theorem C8_witness:
  "slice short_header_record0 0xF2 0xF4 = [CHR 0xFF, CHR 0xFF]
   \<and> (\<exists>b. MobiBook_init short_header_file = Inr b \<and> mobi_length b = 0xE0
           \<and> mobi_version b = 6 \<and> extra_data_flags b = 0)
   \<and> (\<exists>b. MobiBook_init long_header_file = Inr b \<and> mobi_length b = 0xE4
           \<and> mobi_version b = 6 \<and> extra_data_flags b = 3)"
proof -
  have bytes: "slice short_header_record0 0xF2 0xF4 = [CHR 0xFF, CHR 0xFF]"
    by (simp add: short_header_record0_def sample_defs slice_def)
  have len: "length short_header_record0 = 0xF4" "length long_header_record0 = 0xF4"
    by (simp_all add: short_header_record0_def long_header_record0_def sample_defs)
  from sample_file_fields [of short_header_record0] len obtain s where
    s: "MobiBook_init_fields short_header_file = Inr s" "short_header_record0 = record0 s"
    unfolding short_header_file_def by auto
  from sample_file_fields [of long_header_record0] len obtain l where
    l: "MobiBook_init_fields long_header_file = Inr l" "long_header_record0 = record0 l"
    unfolding long_header_file_def by auto
  have sv: "be_uint (slice short_header_record0 0x14 0x18) = 0xE0"
    "be_uint (slice short_header_record0 0x68 0x6C) = 6"
    by (simp_all add: short_header_record0_def sample_defs unpack_defs)
  have lv: "be_uint (slice long_header_record0 0x14 0x18) = 0xE4"
    "be_uint (slice long_header_record0 0x68 0x6C) = 6"
    "unpack_H (slice long_header_record0 0xF2 0xF4) = Inr 3"
    by (simp_all add: long_header_record0_def sample_defs unpack_defs)
  from C8_extra_data_flags [OF s _ refl refl] len
  have "\<exists>b. MobiBook_init short_header_file = Inr b \<and> mobi_length b = 0xE0
           \<and> mobi_version b = 6 \<and> extra_data_flags b = 0"
    by (simp add: sv)
  moreover from C8_extra_data_flags [OF l _ refl refl] len
  have "\<exists>b. MobiBook_init long_header_file = Inr b \<and> mobi_length b = 0xE4
           \<and> mobi_version b = 6 \<and> extra_data_flags b = 3"
    by (simp add: lv)
  ultimately show ?thesis
    using bytes by simp
qed

section \<open>Field lookup\<close>

lemma codepage_encoding_eq:
  "codepage_encoding cp = (if cp = 65001 then ''utf-8'' else ''windows-1252'')"
  by (simp add: codepage_encoding_def CODEPAGE_MAP_def DEFAULT_ENCODING_def)

lemma EXTH_RMAP_STRINGS_eq:
  "EXTH_RMAP_STRINGS =
     map_of [(''updatedtitle'', 503), (''islibraryrental'', 406), (''coveroffset'', 201),
             (''currency'', 119), (''price'', 118), (''startoffset'', 116), (''asin'', 113),
             (''source'', 112), (''type'', 111), (''subjectcode'', 110), (''rights'', 109),
             (''contributor'', 108), (''review'', 107), (''published'', 106),
             (''subject'', 105), (''isbn'', 104), (''description'', 103),
             (''imprint'', 102), (''publisher'', 101), (''creator'', 100)]"
  by (simp add: EXTH_RMAP_STRINGS_def EXTH_MAP_STRINGS_def lower_def lower_char_def
        byte_val_def char_of_def bit_Suc_0_iff)

lemma cp1252_ascii:
  "\<forall>c \<in> set s. byte_val c < 128 \<Longrightarrow> cp1252_decode s = Inr (map byte_val s)"
  by (induction s) (simp_all add: cp1252_char_def)

lemma utf8_ascii:
  "\<forall>a \<in> set bs. a < 128 \<Longrightarrow> utf8_nat bs = Inr bs"
  by (induction bs) simp_all

lemma unicode_ascii:
  "\<forall>c \<in> set s. byte_val c < 128 \<Longrightarrow>
   unicode s (codepage_encoding cp) = Inr (map byte_val s)"
  by (simp add: codepage_encoding_eq unicode_def utf8_decode_def cp1252_ascii utf8_ascii)

lemma str_nat_digits: "\<forall>c \<in> set (str_nat n). byte_val c < 128"
proof (induction n rule: str_nat.induct)
  case (1 n)
  have d: "byte_val (digit_char k) < 128" if "k < 10" for k
    using that by (simp add: digit_char_def byte_val_def)
  show ?case
  proof (cases "n < 10")
    case True
    then show ?thesis
      by (subst str_nat.simps) (simp add: d)
  next
    case False
    with 1 have "\<forall>c \<in> set (str_nat (n div 10)). byte_val c < 128"
      by simp
    with False show ?thesis
      by (subst str_nat.simps) (simp add: d)
  qed
qed

text \<open>
  C3 (amended). For a field name of the name table, with the raw value stored under its
  tag (empty when the tag is absent): an empty raw value gives the empty string; for tag
  116 or 201 a raw value of exactly four bytes, and for tag 406 one of exactly eight
  bytes, gives the decimal digits of its big-endian unsigned value, while a non-empty raw
  value of any other length makes the lookup raise struct.error; for every other tag the
  raw value is decoded as UTF-8 when the codepage is 65001 and as Windows-1252 otherwise.
\<close>

theorem C3_field_lookup:
  assumes "EXTH_RMAP_STRINGS name = Some tag"
    and "v = (case meta_array self tag of None \<Rightarrow> [] | Some x \<Rightarrow> x)"
    and "encoding = (if mobi_codepage self = 65001 then ''utf-8'' else ''windows-1252'')"
  shows "getattr self name =
     (if v = [] then Inr []
      else if tag = 116 \<or> tag = 201
        then (if length v = 4 then Inr (map byte_val (str_nat (be_uint v)))
              else Inl StructError)
      else if tag = 406
        then (if length v = 8 then Inr (map byte_val (str_nat (be_uint v)))
              else Inl StructError)
      else unicode v encoding)"
proof -
  have enc: "codepage_encoding (mobi_codepage self) = encoding"
    by (simp add: codepage_encoding_eq assms(3))
  have digits: "unicode (str_nat n) encoding = Inr (map byte_val (str_nat n))" for n
    using unicode_ascii [OF str_nat_digits, of n "mobi_codepage self"] by (simp add: enc)
  have empty: "unicode [] encoding = Inr []"
    using unicode_empty [of "mobi_codepage self"] by (simp add: enc)
  from assms(1) have tag: "tag \<in> {503, 406, 201, 119, 118, 116, 113, 112, 111, 110, 109,
      108, 107, 106, 105, 104, 103, 102, 101, 100}"
    by (auto simp: EXTH_RMAP_STRINGS_eq split: if_splits)
  have g: "getattr self name =
     bindE (case EXTH_MAP_CONVERSIONS tag of
              Some f \<Rightarrow> if v \<noteq> [] then bindE (unpack_conv f v) (\<lambda>n. Inr (str_nat n))
                        else Inr v
            | None \<Rightarrow> Inr v)
       (\<lambda>v. unicode v encoding)"
    by (simp add: getattr_def assms(1) Let_def enc assms(2) [symmetric])
  consider "tag = 116 \<or> tag = 201" | "tag = 406" | "tag \<noteq> 116" "tag \<noteq> 201" "tag \<noteq> 406"
    by blast
  then show ?thesis
  proof cases
    case 1
    then have "EXTH_MAP_CONVERSIONS tag = Some Fmt_I"
      by (auto simp: EXTH_MAP_CONVERSIONS_def)
    with 1 show ?thesis
      by (auto simp: g digits empty unpack_conv_def unpack_I_def)
  next
    case 2
    then have "EXTH_MAP_CONVERSIONS tag = Some Fmt_Q"
      by (simp add: EXTH_MAP_CONVERSIONS_def)
    with 2 show ?thesis
      by (auto simp: g digits empty unpack_conv_def unpack_Q_def)
  next
    case 3
    then have "EXTH_MAP_CONVERSIONS tag = None"
      by (simp add: EXTH_MAP_CONVERSIONS_def)
    with 3 show ?thesis
      by (auto simp: g empty)
  qed
qed


lemma padded_file_fields:
  assumes "10 \<le> length r0"
  shows "\<exists>self0. MobiBook_init_fields (sample_file ''Name '' r0) = Inr self0
           \<and> record0 self0 = r0
           \<and> header self0 = sample_pdb ''Name '' ''BOOKMOBI'' 1"
  using assms
  by (simp add: sample_defs MobiBook_init_fields_def blank_def parseSections_def
        loadSection_def list_get_def unpack_defs min_def Let_def)

lemmas header_defs =
  MobiBook_init_def parseMobiHeader_def processEXTH_def storeEXTH_def Let_def

lemma bad_offset_parsed:
  "\<exists>b. MobiBook_init bad_offset_file = Inr b \<and> meta_array b = [116 \<mapsto> ''abc'']
       \<and> mobi_codepage b = 65001"
proof -
  let ?r0 = "sample_record0 0xA8 65001 6 0x40 0 0 (exth_block 1 (exth_record 116 ''abc''))"
  have "10 \<le> length ?r0"
    by (simp add: sample_defs)
  from sample_file_fields [OF this] obtain self0 where
    f: "MobiBook_init_fields bad_offset_file = Inr self0" and r: "record0 self0 = ?r0"
    unfolding bad_offset_file_def by blast
  note d = MobiBook_init_fields_defaults [OF f]
  show ?thesis
    by (simp add: header_defs f r d(2) sample_defs unpack_defs walk_numerals)
qed

theorem C3_counterexample:
  "MobiBook_init bad_offset_file = Inr (parsed bad_offset_file)
   \<and> EXTH_RMAP_STRINGS ''startoffset'' = Some 116
   \<and> meta_array (parsed bad_offset_file) 116 = Some ''abc''
   \<and> getattr (parsed bad_offset_file) ''startoffset'' = Inl StructError"
proof -
  from bad_offset_parsed obtain b where
    b: "MobiBook_init bad_offset_file = Inr b" "meta_array b = [116 \<mapsto> ''abc'']"
    by blast
  then have p: "parsed bad_offset_file = b"
    by (simp add: parsed_def)
  have n: "EXTH_RMAP_STRINGS ''startoffset'' = Some 116"
    by (simp add: EXTH_RMAP_STRINGS_eq)
  have "getattr b ''startoffset'' = Inl StructError"
    by (simp add: getattr_def n b(2) EXTH_MAP_CONVERSIONS_def unpack_conv_def unpack_I_def)
  with b n show ?thesis
    by (simp add: p)
qed

theorem C3_witness:
  "EXTH_RMAP_STRINGS ''startoffset'' = Some 116
   \<and> meta_array offset_self 116 = Some [CHR 0x00, CHR 0x00, CHR 0x01, CHR ''V'']
   \<and> getattr offset_self ''startoffset'' = Inr (map byte_val ''342'')
   \<and> EXTH_RMAP_STRINGS ''islibraryrental'' = Some 406
   \<and> getattr offset_self ''islibraryrental'' = Inr (map byte_val ''1'')
   \<and> EXTH_RMAP_STRINGS ''coveroffset'' = Some 201
   \<and> getattr offset_self ''coveroffset'' = Inr []
   \<and> EXTH_RMAP_STRINGS ''creator'' = Some 100
   \<and> getattr offset_self ''creator'' = unicode ''Al'' ''utf-8''"
proof -
  have n: "EXTH_RMAP_STRINGS ''startoffset'' = Some 116"
    "EXTH_RMAP_STRINGS ''islibraryrental'' = Some 406"
    "EXTH_RMAP_STRINGS ''coveroffset'' = Some 201"
    "EXTH_RMAP_STRINGS ''creator'' = Some 100"
    by (simp_all add: EXTH_RMAP_STRINGS_eq)
  have m: "meta_array offset_self 116 = Some [CHR 0x00, CHR 0x00, CHR 0x01, CHR ''V'']"
    "meta_array offset_self 406
       = Some [CHR 0x00, CHR 0x00, CHR 0x00, CHR 0x00, CHR 0x00, CHR 0x00, CHR 0x00, CHR 0x01]"
    "meta_array offset_self 201 = None"
    "meta_array offset_self 100 = Some ''Al''"
    "mobi_codepage offset_self = 65001"
    by (simp_all add: offset_self_def blank_def sample_defs char_of_def bit_Suc_0_iff)
  have s: "str_nat 342 = ''342''" "str_nat (Suc 0) = ''1''"
    by (simp_all add: str_nat.simps digit_char_def char_of_def bit_Suc_0_iff)
  from C3_field_lookup [OF n(1) refl refl, of offset_self]
  have "getattr offset_self ''startoffset'' = Inr (map byte_val ''342'')"
    by (simp add: m be_uint_def byte_val_def s)
  moreover from C3_field_lookup [OF n(2) refl refl, of offset_self]
  have "getattr offset_self ''islibraryrental'' = Inr (map byte_val ''1'')"
    by (simp add: m be_uint_def byte_val_def s)
  moreover from C3_field_lookup [OF n(3) refl refl, of offset_self]
  have "getattr offset_self ''coveroffset'' = Inr []"
    by (simp add: m)
  moreover from C3_field_lookup [OF n(4) refl refl, of offset_self]
  have "getattr offset_self ''creator'' = unicode ''Al'' ''utf-8''"
    by (simp add: m)
  ultimately show ?thesis
    using n m(1) by simp
qed


section \<open>The title\<close>

lemma ustrip_Nil [simp]: "ustrip [] = []"
  by (simp add: ustrip_def)

lemma title_first_stage:
  assumes "getattr self ''updatedtitle'' = Inr t" and "ustrip t \<noteq> []"
  shows "title self = Inr (ustrip t)" and "title_spec self = Inr (ustrip t)"
proof -
  from assms(2) have "t \<noteq> []"
    by auto
  with assms show "title self = Inr (ustrip t)"
    by (simp add: title_def Let_def)
  from assms show "title_spec self = Inr (ustrip t)"
    by (simp add: title_spec_def Let_def)
qed

lemma title_second_stage:
  assumes "getattr self ''updatedtitle'' = Inr []"
    and "unpack_II (slice (record0 self) 0x54 0x5c) = Inr (toff, tlen)"
    and "unicode (slice (record0 self) toff (toff + tlen))
           (codepage_encoding (mobi_codepage self)) = Inr t"
    and "ustrip t \<noteq> []"
  shows "title self = Inr (ustrip t)" and "title_spec self = Inr (ustrip t)"
  using assms by (simp_all add: title_def title_spec_def Let_def)

lemma title_third_stage:
  assumes "getattr self ''updatedtitle'' = Inr []"
    and "unpack_II (slice (record0 self) 0x54 0x5c) = Inr (toff, tlen)"
    and "unicode (slice (record0 self) toff (toff + tlen))
           (codepage_encoding (mobi_codepage self)) = Inr t"
    and "ustrip t = []"
  shows "title self = unicode (before_nul (strip (slice (header self) 0 32)))
                        (codepage_encoding (mobi_codepage self))"
    and "title_spec self = bindE (unicode (before_nul (slice (header self) 0 32))
                                    (codepage_encoding (mobi_codepage self)))
                             (\<lambda>t3. Inr (ustrip t3))"
  using assms by (simp_all add: title_def title_spec_def Let_def)

lemma title_blank_first_stage:
  assumes "getattr self ''updatedtitle'' = Inr t" and "t \<noteq> []" and "ustrip t = []"
  shows "title self = unicode (before_nul (strip (slice (header self) 0 32)))
                        (codepage_encoding (mobi_codepage self))"
  using assms by (simp add: title_def Let_def)

lemma title_all_empty:
  assumes "getattr self ''updatedtitle'' = Inr []"
    and "unpack_II (slice (record0 self) 0x54 0x5c) = Inr (toff, tlen)"
    and "unicode (slice (record0 self) toff (toff + tlen))
           (codepage_encoding (mobi_codepage self)) = Inr t"
    and "ustrip t = []"
    and "before_nul (strip (slice (header self) 0 32)) = []"
  shows "title self = Inr []"
  using assms by (simp add: title_def Let_def)

lemma padded_name_parsed:
  "\<exists>b. MobiBook_init padded_name_file = Inr b \<and> meta_array b = Map.empty
       \<and> mobi_codepage b = 1252
       \<and> record0 b = sample_record0 0xA8 1252 6 0 0 0 []
       \<and> header b = sample_pdb ''Name '' ''BOOKMOBI'' 1"
proof -
  let ?r0 = "sample_record0 0xA8 1252 6 0 0 0 []"
  have "10 \<le> length ?r0"
    by (simp add: sample_defs)
  from padded_file_fields [OF this] obtain self0 where
    f: "MobiBook_init_fields padded_name_file = Inr self0" and r: "record0 self0 = ?r0"
    and h: "header self0 = sample_pdb ''Name '' ''BOOKMOBI'' 1"
    unfolding padded_name_file_def by blast
  note d = MobiBook_init_fields_defaults [OF f]
  have "\<exists>b. MobiBook_init padded_name_file = Inr b \<and> meta_array b = Map.empty
       \<and> mobi_codepage b = 1252 \<and> record0 b = record0 self0 \<and> header b = header self0"
    by (simp add: header_defs f r d(2) sample_defs unpack_defs walk_numerals)
  then show ?thesis
    by (simp only: r h)
qed

lemma blank_title_parsed:
  "\<exists>b. MobiBook_init blank_title_file = Inr b \<and> meta_array b = [503 \<mapsto> '' '']
       \<and> mobi_codepage b = 1252
       \<and> record0 b = sample_record0 0xA8 1252 6 0x40 205 4
                        (exth_block 1 (exth_record 503 '' '') @ ''Full'')
       \<and> header b = sample_pdb ''Name'' ''BOOKMOBI'' 1"
proof -
  let ?r0 = "sample_record0 0xA8 1252 6 0x40 205 4
               (exth_block 1 (exth_record 503 '' '') @ ''Full'')"
  have "10 \<le> length ?r0"
    by (simp add: sample_defs)
  from sample_file_fields [OF this] obtain self0 where
    f: "MobiBook_init_fields blank_title_file = Inr self0" and r: "record0 self0 = ?r0"
    and h: "header self0 = sample_pdb ''Name'' ''BOOKMOBI'' 1"
    unfolding blank_title_file_def by blast
  note d = MobiBook_init_fields_defaults [OF f]
  have "\<exists>b. MobiBook_init blank_title_file = Inr b \<and> meta_array b = [503 \<mapsto> '' '']
       \<and> mobi_codepage b = 1252 \<and> record0 b = record0 self0 \<and> header b = header self0"
    by (simp add: header_defs f r d(2) sample_defs unpack_defs walk_numerals)
  then show ?thesis
    by (simp only: r h)
qed

lemmas text_defs =
  unicode_def cp1252_char_def ustrip_def strip_def before_nul_def uisspace_def isspace_def
  byte_val_def

text \<open>
  C2. The title property at two files the constructor accepts, beside the three-stage
  title of the specification. With no UpdatedTitle record, an empty title range and the
  PDB name \<open>Name\<close> followed by a space before its NUL padding, the property returns
  \<open>Name\<close> with the space, where the specification's third stage is trimmed. With an
  UpdatedTitle record of one space, the title range \<open>Full\<close> and the PDB name
  \<open>Name\<close>, the property returns \<open>Name\<close>, where the specification's second stage
  gives \<open>Full\<close>.
\<close>

theorem C2_title_divergence:
  "MobiBook_init padded_name_file = Inr (parsed padded_name_file)
   \<and> title (parsed padded_name_file) = Inr (map byte_val ''Name '')
   \<and> title_spec (parsed padded_name_file) = Inr (map byte_val ''Name'')
   \<and> MobiBook_init blank_title_file = Inr (parsed blank_title_file)
   \<and> getattr (parsed blank_title_file) ''updatedtitle'' = Inr (map byte_val '' '')
   \<and> title (parsed blank_title_file) = Inr (map byte_val ''Name'')
   \<and> title_spec (parsed blank_title_file) = Inr (map byte_val ''Full'')"
proof -
  have n: "EXTH_RMAP_STRINGS ''updatedtitle'' = Some 503"
    by (simp add: EXTH_RMAP_STRINGS_eq)
  have c: "EXTH_MAP_CONVERSIONS 503 = None"
    by (simp add: EXTH_MAP_CONVERSIONS_def)
  from padded_name_parsed obtain p where
    p: "MobiBook_init padded_name_file = Inr p" "meta_array p = Map.empty"
       "mobi_codepage p = 1252" "record0 p = sample_record0 0xA8 1252 6 0 0 0 []"
       "header p = sample_pdb ''Name '' ''BOOKMOBI'' 1"
    by blast
  from blank_title_parsed obtain q where
    q: "MobiBook_init blank_title_file = Inr q" "meta_array q = [503 \<mapsto> '' '']"
       "mobi_codepage q = 1252"
       "record0 q = sample_record0 0xA8 1252 6 0x40 205 4
                      (exth_block 1 (exth_record 503 '' '') @ ''Full'')"
       "header q = sample_pdb ''Name'' ''BOOKMOBI'' 1"
    by blast
  have pp: "parsed padded_name_file = p" and qq: "parsed blank_title_file = q"
    by (simp_all add: parsed_def p(1) q(1))
  have gp: "getattr p ''updatedtitle'' = Inr []"
    by (simp add: getattr_def n c p(2))
  have gq: "getattr q ''updatedtitle'' = Inr (map byte_val '' '')"
    by (simp add: getattr_def n c q(2,3) codepage_encoding_eq text_defs)
  have e: "codepage_encoding 1252 = ''windows-1252''"
    by (simp add: codepage_encoding_eq)
  have rp: "unpack_II (slice (record0 p) 0x54 0x5c) = Inr (0, 0)"
    by (simp add: p(4) sample_defs unpack_defs)
  have rq: "unpack_II (slice (record0 q) 0x54 0x5c) = Inr (205, 4)"
    by (simp add: q(4) sample_defs unpack_defs)
  have fq: "slice (record0 q) 205 (205 + 4) = ''Full''"
    by (simp add: q(4) sample_defs slice_def)
  have hp: "slice (header p) 0 32 = ''Name '' @ zeros 27"
    by (simp add: p(5) sample_defs slice_def)
  have hq: "slice (header q) 0 32 = ''Name'' @ zeros 28"
    by (simp add: q(5) sample_defs slice_def)
  have ep: "unicode (slice (record0 p) 0 (0 + 0)) (codepage_encoding (mobi_codepage p))
              = Inr []"
    by (simp add: slice_def)
  have np: "before_nul (strip (slice (header p) 0 32)) = ''Name ''"
    by (simp add: hp strip_def isspace_def before_nul_def byte_val_def zeros_def
          replicate_numeral)
  have np': "before_nul (slice (header p) 0 32) = ''Name ''"
    by (simp add: hp before_nul_def byte_val_def zeros_def replicate_numeral)
  have nq: "before_nul (strip (slice (header q) 0 32)) = ''Name''"
    by (simp add: hq strip_def isspace_def before_nul_def byte_val_def zeros_def
          replicate_numeral)
  have dec: "unicode ''Name '' ''windows-1252'' = Inr (map byte_val ''Name '')"
    "unicode ''Name'' ''windows-1252'' = Inr (map byte_val ''Name'')"
    "unicode ''Full'' ''windows-1252'' = Inr (map byte_val ''Full'')"
    by (simp_all add: unicode_def cp1252_char_def byte_val_def)
  have us: "ustrip (map byte_val ''Name '') = map byte_val ''Name''"
    "ustrip (map byte_val ''Full'') = map byte_val ''Full''"
    "ustrip (map byte_val '' '') = []"
    by (simp_all add: ustrip_def uisspace_def byte_val_def)
  have tp: "title p = Inr (map byte_val ''Name '')"
    using title_third_stage(1) [OF gp rp ep ustrip_Nil] by (simp only: np p(3) e dec)
  have sp: "title_spec p = Inr (map byte_val ''Name'')"
    using title_third_stage(2) [OF gp rp ep ustrip_Nil] by (simp only: np' p(3) e dec us bindE_simps)
  have "map byte_val '' '' \<noteq> []"
    by simp
  from title_blank_first_stage [OF gq this us(3)]
  have tq: "title q = Inr (map byte_val ''Name'')"
    by (simp only: nq q(3) e dec)
  have "title_spec q = bindE (unicode (slice (record0 q) 205 (205 + 4))
                                (codepage_encoding (mobi_codepage q)))
                         (\<lambda>t2. if ustrip t2 \<noteq> [] then Inr (ustrip t2)
                                else bindE (unicode (before_nul (slice (header q) 0 32))
                                             (codepage_encoding (mobi_codepage q)))
                                       (\<lambda>t3. Inr (ustrip t3)))"
    by (simp add: title_spec_def gq rq us(3) Let_def del: map_eq_conv list.map)
  then have sq: "title_spec q = Inr (map byte_val ''Full'')"
    by (simp only: fq q(3) e dec us bindE_simps) simp
  from p(1) q(1) gq tp sp tq sq show ?thesis
    by (simp only: pp qq simp_thms)
qed


section \<open>Cut blocks the walk accepts\<close>





end
